theory Spec2Isabelle
  imports Main "HOL-Library.Sublist"
begin

section \<open>Sentinel-2 catalogue query and bucket download: the model\<close>

text \<open>
  The development embeds \<^verbatim>\<open>funciones_sentinel_2.py\<close>. A Python \<^verbatim>\<open>str\<close> is a
  \<^typ>\<open>string\<close>: a list of characters, each character standing for the code point of the
  same number (code points above 255 are outside the model). An exception is a value of
  type \<open>error\<close>; a function that can raise returns a sum with the error on the left.
  The object store, the local file system and the standard output are explicit state.
\<close>

subsection \<open>Exceptions\<close>

datatype error =
    ValueError
  | FileNotFoundError string
  | KeyError string
  | TransferError string
  | RequestError string

text \<open>
  \<open>ValueError\<close> is raised at one place only (\<^verbatim>\<open>extract_imagename\<close>) and
  \<open>FileNotFoundError\<close> carries the product prefix that its message names.
  \<open>TransferError\<close> stands for whatever the S3 client raises when one object cannot be
  fetched, \<open>RequestError\<close> for a failure of the HTTP request or of its JSON decoding.
  All five are subclasses of Python's \<^verbatim>\<open>Exception\<close>. \<open>error_str e\<close> is \<^verbatim>\<open>str(e)\<close>.
\<close>

fun error_str :: "error \<Rightarrow> string" where
  "error_str ValueError = ''No match found for the pattern in the provided path.''"
| "error_str (FileNotFoundError product) = ''No se encontraron archivos para '' @ product"
| "error_str (KeyError k) = [CHR 0x27] @ k @ [CHR 0x27]"
| "error_str (TransferError m) = m"
| "error_str (RequestError m) = m"

subsection \<open>\<^verbatim>\<open>remove_prefix\<close>\<close>

text \<open>
  \<^verbatim>\<open>if string.startswith(prefix): string = string[len(prefix):]\<close>, then
  \<^verbatim>\<open>return string\<close>.
\<close>

definition remove_prefix :: "string \<Rightarrow> string \<Rightarrow> string" where
  "remove_prefix string pre =
     (if prefix pre string then drop (length pre) string else string)"

subsection \<open>Regular expressions as Python's \<^verbatim>\<open>re.search\<close> runs them\<close>

text \<open>
  The pattern of \<^verbatim>\<open>extract_imagename\<close> is a sequence of items, each a character
  class taken once or taken one or more times greedily (\<^verbatim>\<open>+\<close>). A class is a literal
  character, \<^verbatim>\<open>.\<close> (any character but the line feed, no flag being given),
  \<^verbatim>\<open>\d\<close> (the decimal digits; among the code points below 256 these are \<^verbatim>\<open>0\<close> to
  \<^verbatim>\<open>9\<close>) or a bracket of ranges.
\<close>

datatype cls = Lit char | Dot | Digit | Bracket "(char \<times> char) list"

fun in_ranges :: "(char \<times> char) list \<Rightarrow> char \<Rightarrow> bool" where
  "in_ranges [] c = False"
| "in_ranges ((lo, hi) # rs) c =
     (((of_char lo :: nat) \<le> of_char c \<and> (of_char c :: nat) \<le> of_char hi) \<or> in_ranges rs c)"

fun cls_match :: "cls \<Rightarrow> char \<Rightarrow> bool" where
  "cls_match (Lit a) c = (c = a)"
| "cls_match Dot c = (c \<noteq> CHR 0x0A)"
| "cls_match Digit c = in_ranges [(CHR ''0'', CHR ''9'')] c"
| "cls_match (Bracket rs) c = in_ranges rs c"

datatype atom = One cls | Plus cls

type_synonym regex = "atom list"

text \<open>
  The backtracking matcher. \<open>match_here r s\<close> matches \<open>r\<close> at the start of \<open>s\<close> and
  returns the number of characters the match takes. A greedy \<^verbatim>\<open>+\<close> first takes the
  longest run of its class, then gives characters back one at a time (never going below
  one) until the rest of the pattern matches: \<open>try_down k s n\<close> tries the run lengths
  \<open>n\<close>, \<open>n - 1\<close>, ..., \<open>1\<close> in this order with the continuation \<open>k\<close>.
\<close>

fun try_down :: "(string \<Rightarrow> nat option) \<Rightarrow> string \<Rightarrow> nat \<Rightarrow> nat option" where
  "try_down k s 0 = None"
| "try_down k s (Suc n) =
     (case k (drop (Suc n) s) of
        Some m \<Rightarrow> Some (Suc n + m)
      | None \<Rightarrow> try_down k s n)"

primrec match_here :: "regex \<Rightarrow> string \<Rightarrow> nat option" where
  "match_here [] = (\<lambda>s. Some 0)"
| "match_here (a # r) =
     (case a of
        One c \<Rightarrow>
          (\<lambda>s. case s of
                 [] \<Rightarrow> None
               | x # t \<Rightarrow> if cls_match c x then map_option Suc (match_here r t) else None)
      | Plus c \<Rightarrow>
          (\<lambda>s. try_down (match_here r) s (length (takeWhile (cls_match c) s))))"

text \<open>
  \<^verbatim>\<open>re.search\<close> tries the start positions from left to right, the one after the last
  character included, and returns the first match found.
\<close>

fun re_search :: "regex \<Rightarrow> string \<Rightarrow> string option" where
  "re_search r [] = (case match_here r [] of Some n \<Rightarrow> Some [] | None \<Rightarrow> None)"
| "re_search r (x # t) =
     (case match_here r (x # t) of
        Some n \<Rightarrow> Some (take n (x # t))
      | None \<Rightarrow> re_search r t)"

subsection \<open>\<^verbatim>\<open>extract_imagename\<close>\<close>

text \<open>
  \<^verbatim>\<open>(S2[AB]_MSI.{3}_\d+T\d+_N\d+_R\d+_T[a-zA-Z0-9]+)\<close>: the only group spans the
  whole pattern, so \<^verbatim>\<open>match.group(1)\<close> is the matched text.
\<close>

definition lits :: "string \<Rightarrow> regex" where
  "lits s = map (\<lambda>c. One (Lit c)) s"

definition alnum :: cls where
  "alnum = Bracket [(CHR ''a'', CHR ''z''), (CHR ''A'', CHR ''Z''), (CHR ''0'', CHR ''9'')]"

definition pattern :: regex where
  "pattern =
     lits ''S2'' @ [One (Bracket [(CHR ''A'', CHR ''A''), (CHR ''B'', CHR ''B'')])] @
     lits ''_MSI'' @ replicate 3 (One Dot) @
     lits ''_'' @ [Plus Digit] @ lits ''T'' @ [Plus Digit] @
     lits ''_N'' @ [Plus Digit] @
     lits ''_R'' @ [Plus Digit] @
     lits ''_T'' @ [Plus alnum]"

definition extract_imagename :: "string \<Rightarrow> error + string" where
  "extract_imagename path =
     (case re_search pattern path of
        Some imagename \<Rightarrow> Inr imagename
      | None \<Rightarrow> Inl ValueError)"

subsection \<open>Paths: \<^verbatim>\<open>os.path.join\<close> and \<^verbatim>\<open>os.path.basename\<close> (POSIX)\<close>

definition os_path_join :: "string \<Rightarrow> string \<Rightarrow> string" where
  "os_path_join a b =
     (if prefix ''/'' b then b
      else if a = [] \<or> suffix ''/'' a then a @ b
      else a @ ''/'' @ b)"

definition basename :: "string \<Rightarrow> string" where
  "basename p = rev (takeWhile (\<lambda>c. c \<noteq> CHR ''/'') (rev p))"

subsection \<open>The object store and the local file system\<close>

text \<open>
  An object of the bucket has a key and what \<^verbatim>\<open>bucket.download_file\<close> meets when it
  fetches it: the bytes, or the exception the client raises. A bucket is the list of its
  objects in listing order. The file system records the directories made and the content
  of the files written; its own calls are taken to succeed.
\<close>

record s3object =
  key :: string
  body :: "error + string"

type_synonym bucket = "s3object list"

record filesystem =
  dirs :: "string set"
  files :: "string \<rightharpoonup> string"

definition objects_filter :: "bucket \<Rightarrow> string \<Rightarrow> s3object list" where
  "objects_filter b product = filter (\<lambda>f. prefix product (key f)) b"

definition makedirs :: "string \<Rightarrow> filesystem \<Rightarrow> filesystem" where
  "makedirs p fs = fs\<lparr>dirs := insert p (dirs fs)\<rparr>"

definition download_file :: "s3object \<Rightarrow> string \<Rightarrow> filesystem \<Rightarrow> (error + unit) \<times> filesystem" where
  "download_file f p fs =
     (case body f of
        Inl e \<Rightarrow> (Inl e, fs)
      | Inr bytes \<Rightarrow> (Inr (), fs\<lparr>files := (files fs)(p \<mapsto> bytes)\<rparr>))"

subsection \<open>\<^verbatim>\<open>download\<close>\<close>

text \<open>
  The body of \<^verbatim>\<open>for file in files\<close>, and the loop. Nothing in the loop catches an
  exception: the first one ends the loop, and the file system keeps what was done. The
  source lists the objects twice, for \<^verbatim>\<open>list(files)\<close> and for the loop; the bucket is
  taken to hold the same objects both times.
\<close>

definition download_object :: "string \<Rightarrow> s3object \<Rightarrow> filesystem \<Rightarrow> (error + unit) \<times> filesystem" where
  "download_object target f fs =
     (case extract_imagename (key f) of
        Inl e \<Rightarrow> (Inl e, fs)
      | Inr imagename \<Rightarrow>
          (let imagepath = os_path_join target imagename;
               fs1 = makedirs imagepath fs;
               filename = basename (key f)
           in download_file f (os_path_join imagepath filename) fs1))"

fun download_loop :: "string \<Rightarrow> s3object list \<Rightarrow> filesystem \<Rightarrow> (error + unit) \<times> filesystem" where
  "download_loop target [] fs = (Inr (), fs)"
| "download_loop target (f # fs_rest) fs =
     (case download_object target f fs of
        (Inl e, fs') \<Rightarrow> (Inl e, fs')
      | (Inr u, fs') \<Rightarrow> download_loop target fs_rest fs')"

definition download :: "bucket \<Rightarrow> string \<Rightarrow> string \<Rightarrow> filesystem \<Rightarrow> (error + unit) \<times> filesystem" where
  "download b product target fs =
     (let listing = objects_filter b product in
      if listing = [] then (Inl (FileNotFoundError product), fs)
      else download_loop target listing fs)"

subsection \<open>\<^verbatim>\<open>download_copernicus_images\<close>\<close>

text \<open>
  What the function prints is kept as a list of lines, each with the values its f-string
  interpolates; \<open>render\<close> gives the text. \<open>str_int\<close> is \<^verbatim>\<open>str\<close> on an integer.
\<close>

fun str_nat :: "nat \<Rightarrow> string" where
  "str_nat n =
     (if n < 10 then [''0123456789'' ! n]
      else str_nat (n div 10) @ [''0123456789'' ! (n mod 10)])"

declare str_nat.simps [simp del]

definition str_int :: "int \<Rightarrow> string" where
  "str_int i = (if i < 0 then ''-'' @ str_nat (nat (- i)) else str_nat (nat i))"

datatype line =
    Progress string int
  | Failure string error
  | NoImages

fun render :: "line \<Rightarrow> string" where
  "render (Progress s3path idx) =
     ''Descargando '' @ s3path @ '' (rengl'' @ [CHR 0xF3] @ ''n '' @ str_int idx @ '')...''"
| "render (Failure s3path e) = ''Error al descargar '' @ s3path @ '': '' @ error_str e"
| "render NoImages =
     ''No se encontraron im'' @ [CHR 0xE1] @ ''genes para los criterios especificados.''"

record world =
  disk :: filesystem
  stdout :: "line list"

definition print_line :: "line \<Rightarrow> world \<Rightarrow> world" where
  "print_line l w = w\<lparr>stdout := stdout w @ [l]\<rparr>"

text \<open>
  \<^verbatim>\<open>df["S3Path"][start_row:]\<close> is a slice by position of the column, a sequence of
  strings in table order (the model takes the column; every row of a table of the
  catalogue carries the field). A negative start counts from the end and is clipped at
  the first row, a start beyond the end gives the empty slice.
  \<^verbatim>\<open>enumerate(xs, start=k)\<close> numbers the elements \<open>k\<close>, \<open>k + 1\<close>, ...
\<close>

definition py_slice_from :: "'a list \<Rightarrow> int \<Rightarrow> 'a list" where
  "py_slice_from xs start =
     (let n = int (length xs);
          lo = (if start < 0 then max 0 (start + n) else min start n)
      in drop (nat lo) xs)"

fun py_enumerate :: "int \<Rightarrow> 'a list \<Rightarrow> (int \<times> 'a) list" where
  "py_enumerate k [] = []"
| "py_enumerate k (x # xs) = (k, x) # py_enumerate (k + 1) xs"

text \<open>
  The loop over the rows. The call of \<^verbatim>\<open>download\<close> stands in a \<^verbatim>\<open>try\<close> whose
  handler, \<^verbatim>\<open>except Exception as e\<close>, prints and falls through to the next row.
\<close>

fun rows_loop :: "bucket \<Rightarrow> string \<Rightarrow> (int \<times> string) list \<Rightarrow> world \<Rightarrow> world" where
  "rows_loop b target [] w = w"
| "rows_loop b target ((idx, s3path) # rest) w =
     (let s3path' = remove_prefix s3path ''/eodata/'';
          w1 = print_line (Progress s3path' idx) w
      in case download b s3path' target (disk w1) of
           (Inr u, fs') \<Rightarrow> rows_loop b target rest (w1\<lparr>disk := fs'\<rparr>)
         | (Inl e, fs') \<Rightarrow>
             rows_loop b target rest (print_line (Failure s3path' e) (w1\<lparr>disk := fs'\<rparr>)))"

definition download_copernicus_images ::
  "(string \<Rightarrow> bucket) \<Rightarrow> string list \<Rightarrow> int \<Rightarrow> string \<Rightarrow> world \<Rightarrow> world" where
  "download_copernicus_images s3 df start_row target_directory w =
     rows_loop (s3 ''eodata'') target_directory
       (py_enumerate start_row (py_slice_from df start_row)) w"

subsection \<open>\<^verbatim>\<open>get_copernicus_image_metadata\<close>\<close>

text \<open>
  The query string, built as the source builds it: the base, then each optional clause
  appended when its argument is not \<^verbatim>\<open>None\<close>. The optional arguments are options, the
  cloud cover an integer.
\<close>

definition query_url ::
  "string \<Rightarrow> string \<Rightarrow> string \<Rightarrow> string \<Rightarrow> int option \<Rightarrow> string option \<Rightarrow> string \<Rightarrow> string" where
  "query_url start_date end_date polygon collection cloud_cover product_type srid =
     (let q0 =
            ''https://catalogue.dataspace.copernicus.eu/odata/v1/Products'' @
            ''?$filter='' @
            ''OData.CSC.Intersects(area=geography'' @ [CHR 0x27] @ ''SRID='' @ srid @
              '';POLYGON(('' @ polygon @ ''))'' @ [CHR 0x27] @ '')'' @
            '' and ContentDate/Start gt '' @ start_date @
            '' and ContentDate/Start lt '' @ end_date @
            '' and Collection/Name eq '' @ [CHR 0x27] @ collection @ [CHR 0x27];
          q1 = (case cloud_cover of
                  None \<Rightarrow> q0
                | Some cc \<Rightarrow>
                    q0 @ '' and Attributes/OData.CSC.DoubleAttribute/any(att:att/Name eq '' @
                      [CHR 0x27] @ ''cloudCover'' @ [CHR 0x27] @
                      '' and att/OData.CSC.DoubleAttribute/Value lt '' @ str_int cc @ '')'');
          q2 = (case product_type of
                  None \<Rightarrow> q1
                | Some pt \<Rightarrow>
                    q1 @ '' and Attributes/OData.CSC.StringAttribute/any(att:att/Name eq '' @
                      [CHR 0x27] @ ''productType'' @ [CHR 0x27] @
                      '' and att/OData.CSC.StringAttribute/Value eq '' @
                      [CHR 0x27] @ pt @ [CHR 0x27] @ '')'')
      in q2)"

text \<open>
  The response. A JSON object is a list of members whose values are arrays of objects,
  an object of the array a list of fields; \<^verbatim>\<open>requests.get(url).json()\<close> is the
  parameter \<open>http\<close>. \<^verbatim>\<open>pd.DataFrame.from_dict\<close> keeps the rows in order, and
  \<^verbatim>\<open>df.empty\<close> holds when the table has no row or no column.
\<close>

type_synonym row = "(string \<times> string) list"
type_synonym table = "row list"
type_synonym json_object = "(string \<times> row list) list"

definition from_dict :: "row list \<Rightarrow> table" where
  "from_dict rows = rows"

definition columns :: "table \<Rightarrow> string list" where
  "columns df = remdups (concat (map (map fst) df))"

definition df_empty :: "table \<Rightarrow> bool" where
  "df_empty df = (length df = 0 \<or> length (columns df) = 0)"

definition get_copernicus_image_metadata ::
  "(string \<Rightarrow> error + json_object) \<Rightarrow> string \<Rightarrow> string \<Rightarrow> string \<Rightarrow> string \<Rightarrow>
     int option \<Rightarrow> string option \<Rightarrow> string \<Rightarrow> world \<Rightarrow> (error + table) \<times> world" where
  "get_copernicus_image_metadata http start_date end_date polygon collection
       cloud_cover product_type srid w =
     (case http (query_url start_date end_date polygon collection cloud_cover product_type srid) of
        Inl e \<Rightarrow> (Inl e, w)
      | Inr json_response \<Rightarrow>
          (case map_of json_response ''value'' of
             None \<Rightarrow> (Inl (KeyError ''value''), w)
           | Some v \<Rightarrow>
               (let df = from_dict v
                in (Inr df, if df_empty df then print_line NoImages w else w))))"

section \<open>Notions the properties are stated with\<close>

text \<open>
  The language of a pattern, independent of the order in which the matcher searches:
  \<open>matches r w\<close> holds when the whole of \<open>w\<close> is a text of \<open>r\<close> (a text of \<^verbatim>\<open>c+\<close>
  followed by \<open>r\<close> is a character of \<open>c\<close> followed by a text of \<open>r\<close> or by another such
  text), \<open>match_at r s i n\<close> when the \<open>n\<close> characters of \<open>s\<close> from position \<open>i\<close> are one,
  and \<open>occurs r s\<close> when some part of \<open>s\<close> is.
\<close>

fun matches :: "regex \<Rightarrow> string \<Rightarrow> bool" where
  "matches [] w = (w = [])"
| "matches (One c # r) w =
     (case w of
        [] \<Rightarrow> False
      | x # t \<Rightarrow> if cls_match c x then matches r t else False)"
| "matches (Plus c # r) w =
     (case w of
        [] \<Rightarrow> False
      | x # t \<Rightarrow>
          if cls_match c x then (if matches r t then True else matches (Plus c # r) t)
          else False)"

definition match_at :: "regex \<Rightarrow> string \<Rightarrow> nat \<Rightarrow> nat \<Rightarrow> bool" where
  "match_at r s i n = (i + n \<le> length s \<and> matches r (take n (drop i s)))"

definition occurs :: "regex \<Rightarrow> string \<Rightarrow> bool" where
  "occurs r s = (\<exists>i \<in> {0..length s}. \<exists>n \<in> {0..length s - i}. match_at r s i n)"

text \<open>
  The naming pattern as the specification words it: \<^verbatim>\<open>S2A\<close> or \<^verbatim>\<open>S2B\<close>,
  \<^verbatim>\<open>_MSI\<close> and exactly three characters (any three), \<^verbatim>\<open>_\<close> digits \<^verbatim>\<open>T\<close> digits,
  \<^verbatim>\<open>_N\<close> digits, \<^verbatim>\<open>_R\<close> digits, \<^verbatim>\<open>_T\<close> and an alphanumeric tile code. It differs
  from \<open>pattern\<close> in the three characters only.
\<close>

definition spec_pattern :: regex where
  "spec_pattern =
     lits ''S2'' @ [One (Bracket [(CHR ''A'', CHR ''A''), (CHR ''B'', CHR ''B'')])] @
     lits ''_MSI'' @ replicate 3 (One (Bracket [(CHR 0x00, CHR 0xFF)])) @
     lits ''_'' @ [Plus Digit] @ lits ''T'' @ [Plus Digit] @
     lits ''_N'' @ [Plus Digit] @
     lits ''_R'' @ [Plus Digit] @
     lits ''_T'' @ [Plus alnum]"

text \<open>
  A pattern is \<open>unambiguous\<close> when every \<^verbatim>\<open>+\<close> but a final one is followed by a literal
  character outside its class: the run of such a \<^verbatim>\<open>+\<close> can end at one place only.
\<close>

fun unambiguous :: "regex \<Rightarrow> bool" where
  "unambiguous [] = True"
| "unambiguous (One c # r) = unambiguous r"
| "unambiguous [Plus c] = True"
| "unambiguous (Plus c # One (Lit d) # r) = (\<not> cls_match c d \<and> unambiguous r)"
| "unambiguous (Plus c # a # r) = False"

text \<open>The lines of progress among the printed ones, as (path, index) pairs.\<close>

fun progress_of :: "line list \<Rightarrow> (string \<times> int) list" where
  "progress_of [] = []"
| "progress_of (Progress p i # ls) = (p, i) # progress_of ls"
| "progress_of (l # ls) = progress_of ls"

section \<open>Properties\<close>

subsection \<open>Stripping the prefix\<close>

lemma remove_prefix_absent: "\<not> prefix p s \<Longrightarrow> remove_prefix s p = s"
  by (simp add: remove_prefix_def)

lemma drop_prefix_neq:
  assumes "p \<noteq> []" "prefix p t"
  shows "drop (length p) t \<noteq> t"
proof
  assume eq: "drop (length p) t = t"
  from assms obtain u where t: "t = p @ u" by (auto simp: prefix_def)
  have "length (drop (length p) t) = length u" using t by simp
  moreover have "length t = length p + length u" using t by simp
  moreover have "0 < length p" using assms(1) by simp
  ultimately show False using eq by simp
qed

lemma remove_prefix_twice_iff:
  assumes "p \<noteq> []"
  shows "remove_prefix (remove_prefix s p) p = remove_prefix s p \<longleftrightarrow> \<not> prefix (p @ p) s"
proof (cases "prefix p s")
  case False
  then have "\<not> prefix (p @ p) s" by (meson append_prefixD)
  with False show ?thesis by (simp add: remove_prefix_def)
next
  case True
  then obtain t where s: "s = p @ t" by (auto simp: prefix_def)
  have once: "remove_prefix s p = t" using s by (simp add: remove_prefix_def)
  show ?thesis
  proof (cases "prefix p t")
    case False
    then show ?thesis using once s by (simp add: remove_prefix_def)
  next
    case True
    have "drop (length p) t \<noteq> t" using drop_prefix_neq [OF assms True] .
    with True show ?thesis using once s by (simp add: remove_prefix_def)
  qed
qed

text \<open>
  Claim C2, as amended. A string that does not start with \<^verbatim>\<open>/eodata/\<close> is returned
  unchanged. Stripping twice gives the same as stripping once exactly for the strings that
  do not start with the prefix twice over, \<^verbatim>\<open>/eodata//eodata/\<close>: the function removes
  one occurrence of the prefix, and a second occurrence behind it is removed by the second
  call.
\<close>

theorem remove_prefix_twice:
  "(\<not> prefix ''/eodata/'' s \<longrightarrow> remove_prefix s ''/eodata/'' = s) \<and>
   (remove_prefix (remove_prefix s ''/eodata/'') ''/eodata/'' = remove_prefix s ''/eodata/''
      \<longleftrightarrow> \<not> prefix ''/eodata//eodata/'' s)"
  using remove_prefix_twice_iff [of "''/eodata/''" s] remove_prefix_absent [of "''/eodata/''" s]
  by simp

theorem remove_prefix_twice_witness:
  "remove_prefix ''Sentinel-2/x'' ''/eodata/'' = ''Sentinel-2/x'' \<and>
   remove_prefix (remove_prefix ''/eodata/Sentinel-2/x'' ''/eodata/'') ''/eodata/''
     = remove_prefix ''/eodata/Sentinel-2/x'' ''/eodata/''"
  using remove_prefix_twice [of "''Sentinel-2/x''"] remove_prefix_twice [of "''/eodata/Sentinel-2/x''"]
  by simp

text \<open>
  Claim C2 as stated fails: on \<^verbatim>\<open>/eodata//eodata/x\<close> the first call returns
  \<^verbatim>\<open>/eodata/x\<close> and the second \<^verbatim>\<open>x\<close>.
\<close>

theorem remove_prefix_twice_counterexample:
  "remove_prefix (remove_prefix ''/eodata//eodata/x'' ''/eodata/'') ''/eodata/''
     \<noteq> remove_prefix ''/eodata//eodata/x'' ''/eodata/''"
  by (simp add: remove_prefix_def)

subsection \<open>The empty listing\<close>

text \<open>
  Claim C5. When no object of the bucket has the product as a prefix of its key,
  \<open>download\<close> raises \<open>FileNotFoundError\<close> and the file system it leaves is the one it
  was given: no directory was made and no file written.
\<close>

theorem download_empty_listing:
  "objects_filter b product = [] \<Longrightarrow>
     download b product target fs = (Inl (FileNotFoundError product), fs)"
  by (simp add: download_def)

theorem download_empty_listing_witness:
  "objects_filter [\<lparr>key = ''Sentinel-2/a'', body = Inr ''x''\<rparr>] ''Landsat/'' = [] \<and>
   download [\<lparr>key = ''Sentinel-2/a'', body = Inr ''x''\<rparr>] ''Landsat/'' ''out''
       \<lparr>dirs = {}, files = Map.empty\<rparr>
     = (Inl (FileNotFoundError ''Landsat/''), \<lparr>dirs = {}, files = Map.empty\<rparr>)"
proof -
  have h: "objects_filter [\<lparr>key = ''Sentinel-2/a'', body = Inr ''x''\<rparr>] ''Landsat/'' = []"
    by (simp add: objects_filter_def)
  from h download_empty_listing [OF h] show ?thesis by simp
qed

subsection \<open>The matcher and the language of a pattern\<close>

lemma matches_One_Nil [simp]: "matches (One c # r) [] = False"
  by simp

lemma matches_One_Cons [simp]: "matches (One c # r) (x # t) = (cls_match c x \<and> matches r t)"
  by simp

declare matches.simps(2) [simp del]

lemma matches_One_iff:
  "matches (One c # r) w \<longleftrightarrow> (\<exists>x t. w = x # t \<and> cls_match c x \<and> matches r t)"
  by (cases w) simp_all

lemma matches_Plus_iff:
  "matches (Plus c # r) w \<longleftrightarrow>
     (\<exists>n \<in> {1..length w}. list_all (cls_match c) (take n w) \<and> matches r (drop n w))"
proof (induction w)
  case Nil
  then show ?case by simp
next
  case (Cons x t)
  show ?case
  proof
    assume l: "matches (Plus c # r) (x # t)"
    then have cx: "cls_match c x" by (simp split: if_splits)
    from l consider "matches r t" | "matches (Plus c # r) t" by (auto split: if_splits)
    then show "\<exists>n \<in> {1..length (x # t)}. list_all (cls_match c) (take n (x # t)) \<and>
        matches r (drop n (x # t))"
    proof cases
      case 1
      with cx show ?thesis by (intro bexI[of _ 1]) simp_all
    next
      case 2
      with Cons.IH obtain n where n: "n \<in> {1..length t}" "list_all (cls_match c) (take n t)"
        "matches r (drop n t)" by blast
      with cx show ?thesis by (intro bexI[of _ "Suc n"]) simp_all
    qed
  next
    assume "\<exists>n \<in> {1..length (x # t)}. list_all (cls_match c) (take n (x # t)) \<and>
        matches r (drop n (x # t))"
    then obtain n where n: "1 \<le> n" "n \<le> length (x # t)"
      "list_all (cls_match c) (take n (x # t))" "matches r (drop n (x # t))" by auto
    then obtain n' where n': "n = Suc n'" by (cases n) auto
    with n(3) have cx: "cls_match c x" by simp
    show "matches (Plus c # r) (x # t)"
    proof (cases n')
      case 0
      with n' n(4) cx show ?thesis by simp
    next
      case (Suc k)
      with n' n have "n' \<in> {1..length t}" "list_all (cls_match c) (take n' t)"
        "matches r (drop n' t)" by simp_all
      with Cons.IH have "matches (Plus c # r) t" by blast
      with cx show ?thesis by simp
    qed
  qed
qed

declare matches.simps(3) [simp del]

lemma try_down_Some:
  "try_down k s n = Some m \<Longrightarrow>
     \<exists>j m'. 0 < j \<and> j \<le> n \<and> k (drop j s) = Some m' \<and> m = j + m' \<and>
            (\<forall>i. j < i \<and> i \<le> n \<longrightarrow> k (drop i s) = None)"
proof (induction n)
  case 0
  then show ?case by simp
next
  case (Suc n)
  show ?case
  proof (cases "k (drop (Suc n) s)")
    case None
    with Suc.prems have "try_down k s n = Some m" by simp
    from Suc.IH[OF this] obtain j m' where
      j: "0 < j" "j \<le> n" "k (drop j s) = Some m'" "m = j + m'"
         "\<forall>i. j < i \<and> i \<le> n \<longrightarrow> k (drop i s) = None" by blast
    have "\<forall>i. j < i \<and> i \<le> Suc n \<longrightarrow> k (drop i s) = None"
      using j(5) None by (metis le_Suc_eq)
    moreover have "j \<le> Suc n" using j(2) by simp
    ultimately show ?thesis using j(1,3,4) by blast
  next
    case (Some m')
    with Suc.prems have "m = Suc n + m'" by simp
    have "\<forall>i. Suc n < i \<and> i \<le> Suc n \<longrightarrow> k (drop i s) = None" by auto
    with Some \<open>m = Suc n + m'\<close> show ?thesis by blast
  qed
qed

lemma try_down_None:
  "try_down k s n = None \<longleftrightarrow> (\<forall>j. 0 < j \<and> j \<le> n \<longrightarrow> k (drop j s) = None)"
proof (induction n)
  case 0
  then show ?case by simp
next
  case (Suc n)
  show ?case
  proof (cases "k (drop (Suc n) s)")
    case None
    then show ?thesis using Suc.IH by (auto simp: le_Suc_eq)
  next
    case (Some m')
    then show ?thesis by auto
  qed
qed

lemma list_all_take_takeWhile:
  "n \<le> length s \<Longrightarrow> list_all P (take n s) \<longleftrightarrow> n \<le> length (takeWhile P s)"
proof (induction s arbitrary: n)
  case Nil
  then show ?case by simp
next
  case (Cons x s)
  then show ?case by (cases n) auto
qed

lemma match_here_sound:
  "match_here r s = Some n \<Longrightarrow> n \<le> length s \<and> matches r (take n s)"
proof (induction r arbitrary: s n)
  case Nil
  then show ?case by simp
next
  case (Cons a r)
  show ?case
  proof (cases a)
    case (One c)
    with Cons.prems obtain x t m where s: "s = x # t" and cx: "cls_match c x"
      and m: "match_here r t = Some m" and n: "n = Suc m"
      by (auto split: list.splits if_splits)
    from Cons.IH[OF m] have "m \<le> length t" "matches r (take m t)" by simp_all
    with s cx n One show ?thesis by simp
  next
    case (Plus c)
    let ?L = "length (takeWhile (cls_match c) s)"
    from Cons.prems Plus have "try_down (match_here r) s ?L = Some n" by simp
    from try_down_Some[OF this] obtain j m' where
      j: "0 < j" "j \<le> ?L" "match_here r (drop j s) = Some m'" "n = j + m'" by blast
    from Cons.IH[OF j(3)] have m': "m' \<le> length (drop j s)" "matches r (take m' (drop j s))"
      by simp_all
    have jl: "j \<le> length s" using j(2) length_takeWhile_le[of "cls_match c" s] by linarith
    have nl: "n \<le> length s" using m'(1) j(4) jl by simp
    have "list_all (cls_match c) (take j s)"
      using list_all_take_takeWhile[OF jl] j(2) by simp
    moreover have "take j (take n s) = take j s" using j(4) by (simp add: min_def)
    moreover have "drop j (take n s) = take m' (drop j s)" using j(4) by (simp add: drop_take)
    moreover have "j \<in> {1..length (take n s)}" using j(1,4) nl by simp
    ultimately have "matches (Plus c # r) (take n s)"
      using m'(2) unfolding matches_Plus_iff by (auto intro!: bexI[of _ j])
    with nl Plus show ?thesis by simp
  qed
qed

lemma match_here_complete:
  "n \<le> length s \<Longrightarrow> matches r (take n s) \<Longrightarrow> match_here r s \<noteq> None"
proof (induction r arbitrary: s n)
  case Nil
  then show ?case by simp
next
  case (Cons a r)
  show ?case
  proof (cases a)
    case (One c)
    with Cons.prems obtain x t m where s: "s = x # t" and n: "n = Suc m"
      and cx: "cls_match c x" and m: "matches r (take m t)"
      by (cases s; cases n) (auto split: list.splits)
    have "m \<le> length t" using Cons.prems(1) s n by simp
    from Cons.IH[OF this m] cx s One show ?thesis by auto
  next
    case (Plus c)
    let ?L = "length (takeWhile (cls_match c) s)"
    from Cons.prems(2) Plus obtain j where
      j: "1 \<le> j" "j \<le> length (take n s)" "list_all (cls_match c) (take j (take n s))"
         "matches r (drop j (take n s))" by (auto simp: matches_Plus_iff)
    have jn: "j \<le> n" "j \<le> length s" using j(2) by simp_all
    have "take j (take n s) = take j s" using jn by (simp add: min_def)
    with j(3) have "j \<le> ?L" using list_all_take_takeWhile[OF jn(2)] by simp
    have "drop j (take n s) = take (n - j) (drop j s)" by (simp add: drop_take)
    with j(4) have "matches r (take (n - j) (drop j s))" by simp
    moreover have "n - j \<le> length (drop j s)" using Cons.prems(1) by simp
    ultimately have "match_here r (drop j s) \<noteq> None" using Cons.IH by blast
    with \<open>j \<le> ?L\<close> j(1) have "try_down (match_here r) s ?L \<noteq> None"
      unfolding try_down_None by (metis less_eq_Suc_le One_nat_def)
    with Plus show ?thesis by simp
  qed
qed



lemma re_search_None:
  "re_search r s = None \<Longrightarrow> i \<le> length s \<Longrightarrow> match_here r (drop i s) = None"
proof (induction s arbitrary: i)
  case Nil
  then show ?case by (simp split: option.splits)
next
  case (Cons x t)
  from Cons.prems(1) have h: "match_here r (x # t) = None" and t: "re_search r t = None"
    by (simp_all split: option.splits)
  show ?case
  proof (cases i)
    case 0
    with h show ?thesis by simp
  next
    case (Suc j)
    with Cons.prems(2) have "j \<le> length t" by simp
    from Cons.IH[OF t this] Suc show ?thesis by simp
  qed
qed

lemma re_search_Some:
  "re_search r s = Some m \<Longrightarrow>
     \<exists>i n. i \<le> length s \<and> m = take n (drop i s) \<and> match_here r (drop i s) = Some n \<and>
           (\<forall>j<i. match_here r (drop j s) = None)"
proof (induction s)
  case Nil
  then obtain n where "match_here r [] = Some n" "m = []" by (auto split: option.splits)
  then have "(0::nat) \<le> length ([]::string) \<and> m = take n (drop 0 []) \<and>
      match_here r (drop 0 []) = Some n \<and> (\<forall>j<0. match_here r (drop j []) = None)" by simp
  then show ?case by blast
next
  case (Cons x t)
  show ?case
  proof (cases "match_here r (x # t)")
    case (Some n)
    with Cons.prems have "m = take n (x # t)" by simp
    with Some have "0 \<le> length (x # t) \<and> m = take n (drop 0 (x # t)) \<and>
      match_here r (drop 0 (x # t)) = Some n \<and> (\<forall>j<0. match_here r (drop j (x # t)) = None)"
      by simp
    then show ?thesis by blast
  next
    case None
    with Cons.prems have "re_search r t = Some m" by simp
    from Cons.IH[OF this] obtain i n where
      i: "i \<le> length t" "m = take n (drop i t)" "match_here r (drop i t) = Some n"
         "\<forall>j<i. match_here r (drop j t) = None" by blast
    have "\<forall>j<Suc i. match_here r (drop j (x # t)) = None"
    proof (intro allI impI)
      fix j assume "j < Suc i"
      then show "match_here r (drop j (x # t)) = None"
        using None i(4) by (cases j) auto
    qed
    with i(1,2,3) have "Suc i \<le> length (x # t) \<and> m = take n (drop (Suc i) (x # t)) \<and>
      match_here r (drop (Suc i) (x # t)) = Some n \<and>
      (\<forall>j<Suc i. match_here r (drop j (x # t)) = None)" by simp
    then show ?thesis by blast
  qed
qed

lemma takeWhile_stops:
  assumes "j < length s" "\<not> P (s ! j)"
  shows "length (takeWhile P s) \<le> j"
proof (rule ccontr)
  assume "\<not> length (takeWhile P s) \<le> j"
  then have lt: "j < length (takeWhile P s)" by simp
  then have "takeWhile P s ! j = s ! j" by (rule takeWhile_nth)
  moreover have "takeWhile P s ! j \<in> set (takeWhile P s)" using lt by simp
  ultimately have "P (s ! j)" by (metis set_takeWhileD)
  with assms(2) show False by simp
qed

lemma match_here_longest:
  "unambiguous r \<Longrightarrow> n \<le> length s \<Longrightarrow> matches r (take n s) \<Longrightarrow>
     \<exists>m. match_here r s = Some m \<and> n \<le> m"
proof (induction r arbitrary: s n rule: unambiguous.induct)
  case 1
  then show ?case by auto
next
  case (2 c r)
  from "2.prems"(2,3) obtain x t n' where s: "s = x # t" and n: "n = Suc n'"
    and cx: "cls_match c x" and m: "matches r (take n' t)"
    by (cases s; cases n) (auto split: list.splits)
  have "n' \<le> length t" using "2.prems"(2) s n by simp
  with "2.IH" "2.prems"(1) m obtain m' where "match_here r t = Some m'" "n' \<le> m'"
    by auto
  with s n cx show ?case by simp
next
  case (3 c)
  from "3.prems"(3) obtain j where j: "1 \<le> j" "j \<le> length (take n s)"
    "list_all (cls_match c) (take j (take n s))" "drop j (take n s) = []"
    by (auto simp: matches_Plus_iff)
  have jn: "j = n" using j(2,4) "3.prems"(2) by simp
  then have "list_all (cls_match c) (take n s)" using j(3) by simp
  then have nL: "n \<le> length (takeWhile (cls_match c) s)"
    using list_all_take_takeWhile[OF "3.prems"(2)] by simp
  obtain L' where L: "length (takeWhile (cls_match c) s) = Suc L'"
    using nL j(1) jn by (cases "length (takeWhile (cls_match c) s)") auto
  show ?case using nL L by simp
next
  case (4 c d r)
  let ?L = "length (takeWhile (cls_match c) s)"
  from "4.prems"(1) have nd: "\<not> cls_match c d" and ur: "unambiguous r" by simp_all
  from "4.prems"(3) obtain j where j: "1 \<le> j" "j \<le> length (take n s)"
    "list_all (cls_match c) (take j (take n s))"
    "matches (One (Lit d) # r) (drop j (take n s))" by (auto simp: matches_Plus_iff)
  have jn: "j \<le> n" "j \<le> length s" using j(2) by simp_all
  have "take j (take n s) = take j s" using jn by (simp add: min_def)
  with j(3) have jL: "j \<le> ?L" using list_all_take_takeWhile[OF jn(2)] by simp
  have dt: "drop j (take n s) = take (n - j) (drop j s)" by (simp add: drop_take)
  with j(4) obtain t where t: "take (n - j) (drop j s) = d # t" and mt: "matches r t"
    by (auto simp: matches_One_iff)
  from t obtain t' where ds: "drop j s = d # t'" and tt: "t = take (n - j - 1) t'"
    by (cases "drop j s"; cases "n - j") auto
  have jl: "j < length s" using ds by (metis drop_eq_Nil list.distinct(1) not_le)
  have "s ! j = d" using ds jl by (metis hd_drop_conv_nth list.sel(1))
  with nd have "?L \<le> j" using takeWhile_stops[OF jl] by simp
  with jL have Lj: "?L = j" by simp
  have "length s - j = Suc (length t')" using ds by (metis length_drop length_Cons)
  then have "n - j - 1 \<le> length t'" using "4.prems"(2) by arith
  with "4.IH" ur mt tt obtain m' where m': "match_here r t' = Some m'" "n - j - 1 \<le> m'"
    by blast
  have k: "match_here (One (Lit d) # r) (drop j s) = Some (Suc m')"
    using ds m'(1) by simp
  obtain j' where j': "j = Suc j'" using j(1) by (cases j) auto
  have "try_down (match_here (One (Lit d) # r)) s j = Some (j + Suc m')"
    using k j' by simp
  moreover have "n \<le> j + Suc m'" using m'(2) by simp
  ultimately show ?case using Lj by simp
qed simp_all

lemma occurs_iff: "occurs r s \<longleftrightarrow> (\<exists>i n. match_at r s i n)"
proof
  assume "occurs r s"
  then show "\<exists>i n. match_at r s i n" by (auto simp: occurs_def)
next
  assume "\<exists>i n. match_at r s i n"
  then obtain i n where m: "match_at r s i n" by blast
  then have "i + n \<le> length s" by (simp add: match_at_def)
  then have "i \<in> {0..length s}" "n \<in> {0..length s - i}" by auto
  with m show "occurs r s" unfolding occurs_def by blast
qed

lemma match_at_found:
  "match_at r s i n \<Longrightarrow> match_here r (drop i s) \<noteq> None"
  unfolding match_at_def using match_here_complete [of n "drop i s" r] by auto

lemma unambiguous_pattern: "unambiguous pattern"
  by code_simp

lemma extract_imagename_absent:
  assumes "\<not> occurs pattern path"
  shows "extract_imagename path = Inl ValueError"
proof (cases "re_search pattern path")
  case None
  then show ?thesis by (simp add: extract_imagename_def)
next
  case (Some m)
  from re_search_Some[OF this] obtain i n where
    i: "i \<le> length path" "match_here pattern (drop i path) = Some n" by blast
  from match_here_sound[OF i(2)] have *: "n \<le> length (drop i path)"
    and **: "matches pattern (take n (drop i path))" by blast+
  from * i(1) have "i + n \<le> length path" by simp
  with ** have "match_at pattern path i n" unfolding match_at_def by blast
  with assms show ?thesis by (auto simp: occurs_iff)
qed

lemma extract_imagename_first:
  assumes "occurs pattern path"
  shows "\<exists>i n. extract_imagename path = Inr (take n (drop i path)) \<and>
               match_at pattern path i n \<and>
               (\<forall>j k. match_at pattern path j k \<longrightarrow> i < j \<or> (i = j \<and> k \<le> n))"
proof (cases "re_search pattern path")
  case None
  from assms obtain i n where m: "match_at pattern path i n" by (auto simp: occurs_iff)
  then have "i \<le> length path" by (simp add: match_at_def)
  from re_search_None[OF None this] match_at_found[OF m] show ?thesis by simp
next
  case (Some m)
  from re_search_Some[OF this] obtain i n where
    i: "i \<le> length path" "m = take n (drop i path)"
       "match_here pattern (drop i path) = Some n"
       "\<forall>j<i. match_here pattern (drop j path) = None" by blast
  from match_here_sound[OF i(3)] have *: "n \<le> length (drop i path)"
    and **: "matches pattern (take n (drop i path))" by blast+
  from * i(1) have "i + n \<le> length path" by simp
  with ** have at: "match_at pattern path i n" unfolding match_at_def by blast
  have first: "i < j \<or> (i = j \<and> k \<le> n)" if jk: "match_at pattern path j k" for j k
  proof (cases "j = i")
    case True
    from jk have a: "j + k \<le> length path" and b: "matches pattern (take k (drop j path))"
      unfolding match_at_def by blast+
    from a True have a': "k \<le> length (drop i path)" by simp
    from b True have b': "matches pattern (take k (drop i path))" by simp
    from match_here_longest[OF unambiguous_pattern a' b'] obtain m'
      where "match_here pattern (drop i path) = Some m'" "k \<le> m'" by blast
    with i(3) have "k \<le> n" by simp
    with True show ?thesis by simp
  next
    case False
    have nn: "match_here pattern (drop j path) \<noteq> None" by (rule match_at_found[OF jk])
    have "\<not> j < i"
    proof
      assume "j < i"
      from i(4)[rule_format, OF this] have e: "match_here pattern (drop j path) = None" .
      from nn e show False by (rule notE)
    qed
    then show ?thesis using False by linarith
  qed
  have ex: "extract_imagename path = Inr (take n (drop i path))"
    using Some i(2) by (simp add: extract_imagename_def)
  have all: "\<forall>j k. match_at pattern path j k \<longrightarrow> i < j \<or> (i = j \<and> k \<le> n)"
    using first by blast
  show ?thesis
    apply (rule exI[of _ i])
    apply (rule exI[of _ n])
    using ex at all apply (intro conjI)
      apply assumption+
    done
qed

lemma download_loop_append:
  "download_loop target (xs @ ys) fs =
     (case download_loop target xs fs of
        (Inl e, fs') \<Rightarrow> (Inl e, fs')
      | (Inr u, fs') \<Rightarrow> download_loop target ys fs')"
  by (induction xs arbitrary: fs) (auto split: prod.splits sum.splits)

lemma download_loop_abort:
  assumes "fst (download_loop target pre fs) = Inr ()"
    and "download_object target f (snd (download_loop target pre fs)) = (Inl e, fs')"
  shows "download_loop target (pre @ f # post) fs = (Inl e, fs')"
proof -
  obtain r fs1 where p: "download_loop target pre fs = (r, fs1)"
    by (cases "download_loop target pre fs")
  with assms have "r = Inr ()" "download_object target f fs1 = (Inl e, fs')" by simp_all
  with p show ?thesis by (simp add: download_loop_append)
qed

lemma occursI: "match_at r s i n \<Longrightarrow> occurs r s"
  unfolding occurs_iff by blast

lemma not_occurs_pattern: "extract_imagename path = Inl e \<Longrightarrow> \<not> occurs pattern path"
  using extract_imagename_first [of path] by auto

text \<open>
  Claim C1, as amended: the three characters after \<^verbatim>\<open>_MSI\<close> are characters other than
  the line feed, which is what \<open>pattern\<close> says. When the pattern occurs in the path,
  \<open>extract_imagename\<close> returns a part of the path that is a text of the pattern, the one
  that starts leftmost and, among those starting there, the longest (the first match of
  \<^verbatim>\<open>re.search\<close>). When the pattern does not occur in the path, it raises
  \<open>ValueError\<close>. In \<open>download\<close>, when the objects before \<open>f\<close> in the listing were
  downloaded and the key of \<open>f\<close> has no occurrence of the pattern, the call ends with
  \<open>ValueError\<close> in the state those objects left: nothing is done for \<open>f\<close> nor for the
  objects behind it.
\<close>

theorem extract_imagename_first_match:
  "(occurs pattern path \<longrightarrow>
      (\<exists>i n. extract_imagename path = Inr (take n (drop i path)) \<and>
             match_at pattern path i n \<and>
             (\<forall>j k. match_at pattern path j k \<longrightarrow> i < j \<or> (i = j \<and> k \<le> n)))) \<and>
   (\<not> occurs pattern path \<longrightarrow> extract_imagename path = Inl ValueError) \<and>
   (objects_filter b product = pre @ f # post \<and>
    fst (download_loop target pre fs) = Inr () \<and>
    \<not> occurs pattern (key f) \<longrightarrow>
      download b product target fs = (Inl ValueError, snd (download_loop target pre fs)))"
proof (intro conjI impI)
  assume "occurs pattern path"
  then show "\<exists>i n. extract_imagename path = Inr (take n (drop i path)) \<and>
             match_at pattern path i n \<and>
             (\<forall>j k. match_at pattern path j k \<longrightarrow> i < j \<or> (i = j \<and> k \<le> n))"
    by (rule extract_imagename_first)
next
  assume "\<not> occurs pattern path"
  then show "extract_imagename path = Inl ValueError" by (rule extract_imagename_absent)
next
  assume a: "objects_filter b product = pre @ f # post \<and>
    fst (download_loop target pre fs) = Inr () \<and> \<not> occurs pattern (key f)"
  then have "extract_imagename (key f) = Inl ValueError"
    using extract_imagename_absent by blast
  then have "download_object target f (snd (download_loop target pre fs))
      = (Inl ValueError, snd (download_loop target pre fs))"
    by (simp add: download_object_def)
  with a have "download_loop target (pre @ f # post) fs
      = (Inl ValueError, snd (download_loop target pre fs))"
    using download_loop_abort by blast
  with a show "download b product target fs = (Inl ValueError, snd (download_loop target pre fs))"
    by (simp add: download_def)
qed

theorem extract_imagename_first_match_witness:
  "occurs pattern ''a/S2A_MSIL1C_20240430T000000_N0500_R001_T16QCD.SAFE/x.jp2'' \<and>
   extract_imagename ''a/S2A_MSIL1C_20240430T000000_N0500_R001_T16QCD.SAFE/x.jp2''
     = Inr ''S2A_MSIL1C_20240430T000000_N0500_R001_T16QCD'' \<and>
   \<not> occurs pattern ''foo/bar.jp2'' \<and>
   extract_imagename ''foo/bar.jp2'' = Inl ValueError \<and>
   download
     [\<lparr>key = ''a/S2A_MSIL1C_20240430T000000_N0500_R001_T16QCD.SAFE/x.jp2'', body = Inr ''xx''\<rparr>,
      \<lparr>key = ''a/foo/bar.jp2'', body = Inr ''yy''\<rparr>,
      \<lparr>key = ''a/S2A_MSIL1C_20240430T000000_N0500_R001_T16QCD.SAFE/z.jp2'', body = Inr ''zz''\<rparr>]
     ''a/'' ''out'' \<lparr>dirs = {}, files = Map.empty\<rparr>
   = (Inl ValueError,
      \<lparr>dirs = {''out/S2A_MSIL1C_20240430T000000_N0500_R001_T16QCD''},
       files = [''out/S2A_MSIL1C_20240430T000000_N0500_R001_T16QCD/x.jp2'' \<mapsto> ''xx'']\<rparr>)"
proof -
  let ?k1 = "''a/S2A_MSIL1C_20240430T000000_N0500_R001_T16QCD.SAFE/x.jp2''"
  let ?o1 = "\<lparr>key = ?k1, body = Inr ''xx''\<rparr>"
  let ?o2 = "\<lparr>key = ''a/foo/bar.jp2'', body = Inr ''yy''\<rparr>"
  let ?o3 = "\<lparr>key = ''a/S2A_MSIL1C_20240430T000000_N0500_R001_T16QCD.SAFE/z.jp2'', body = Inr ''zz''\<rparr>"
  let ?fs0 = "\<lparr>dirs = {}, files = Map.empty\<rparr>"
  have m1: "match_at pattern ?k1 2 44" by code_simp
  have o1: "occurs pattern ?k1" by (rule occursI [OF m1])
  have e1: "extract_imagename ?k1 = Inr ''S2A_MSIL1C_20240430T000000_N0500_R001_T16QCD''"
    by code_simp
  have e2: "extract_imagename ''foo/bar.jp2'' = Inl ValueError" by code_simp
  have o2: "\<not> occurs pattern ''foo/bar.jp2''" by (rule not_occurs_pattern [OF e2])
  have e3: "extract_imagename ''a/foo/bar.jp2'' = Inl ValueError" by code_simp
  have o3: "\<not> occurs pattern (key ?o2)" using not_occurs_pattern [OF e3] by simp
  have l: "objects_filter [?o1, ?o2, ?o3] ''a/'' = [?o1] @ ?o2 # [?o3]"
    by (simp add: objects_filter_def)
  have b1: "basename ?k1 = ''x.jp2''" by (simp add: basename_def)
  have p1: "download_loop ''out'' [?o1] ?fs0 =
      (Inr (), \<lparr>dirs = {''out/S2A_MSIL1C_20240430T000000_N0500_R001_T16QCD''},
       files = [''out/S2A_MSIL1C_20240430T000000_N0500_R001_T16QCD/x.jp2'' \<mapsto> ''xx'']\<rparr>)"
    by (simp add: download_object_def e1 b1 os_path_join_def makedirs_def download_file_def
        suffix_to_prefix)
  have f1: "fst (download_loop ''out'' [?o1] ?fs0) = Inr ()" by (simp only: p1 fst_conv)
  have d: "download [?o1, ?o2, ?o3] ''a/'' ''out'' ?fs0
      = (Inl ValueError, snd (download_loop ''out'' [?o1] ?fs0))"
    using extract_imagename_first_match [of "''foo/bar.jp2''" "[?o1, ?o2, ?o3]" "''a/''" "[?o1]" ?o2
        "[?o3]" "''out''" ?fs0] l f1 o3 by blast
  have x2: "extract_imagename ''foo/bar.jp2'' = Inl ValueError"
    using extract_imagename_first_match [of "''foo/bar.jp2''"] o2 by blast
  from d have d': "download [?o1, ?o2, ?o3] ''a/'' ''out'' ?fs0
      = (Inl ValueError, \<lparr>dirs = {''out/S2A_MSIL1C_20240430T000000_N0500_R001_T16QCD''},
       files = [''out/S2A_MSIL1C_20240430T000000_N0500_R001_T16QCD/x.jp2'' \<mapsto> ''xx'']\<rparr>)"
    by (simp only: p1 snd_conv)
  from o1 e1 o2 x2 d' show ?thesis by (intro conjI)
qed

text \<open>
  Claim C1 as stated fails where one of the three characters is a line feed: the pattern
  as the claim words it occurs in the key, and \<open>extract_imagename\<close> raises \<open>ValueError\<close>.
\<close>

theorem extract_imagename_newline_counterexample:
  "occurs spec_pattern (''S2A_MSI'' @ [CHR 0x0A] @ ''1C_20240430T000000_N0500_R001_T16QCD'') \<and>
   extract_imagename (''S2A_MSI'' @ [CHR 0x0A] @ ''1C_20240430T000000_N0500_R001_T16QCD'')
     = Inl ValueError"
proof -
  have "match_at spec_pattern
      (''S2A_MSI'' @ [CHR 0x0A] @ ''1C_20240430T000000_N0500_R001_T16QCD'') 0 44"
    by code_simp
  then have "occurs spec_pattern
      (''S2A_MSI'' @ [CHR 0x0A] @ ''1C_20240430T000000_N0500_R001_T16QCD'')"
    by (rule occursI)
  moreover have "extract_imagename
      (''S2A_MSI'' @ [CHR 0x0A] @ ''1C_20240430T000000_N0500_R001_T16QCD'') = Inl ValueError"
    by code_simp
  ultimately show ?thesis by (rule conjI)
qed

subsection \<open>The query string\<close>

lemma str_int_20: "str_int 20 = ''20''"
  by code_simp

text \<open>
  Claim C3. The query string is a function of the seven arguments. Without the optional
  arguments it is the endpoint and a filter of four clauses joined by \<^verbatim>\<open>and\<close>: the
  intersection with the polygon under the SRID, the content start time \<^verbatim>\<open>gt\<close> the start
  date, the content start time \<^verbatim>\<open>lt\<close> the end date, the collection name \<^verbatim>\<open>eq\<close> the
  collection. A cloud cover appends one clause, \<^verbatim>\<open>any\<close> attribute named
  \<^verbatim>\<open>cloudCover\<close> with a value \<^verbatim>\<open>lt\<close> the given one; a product type appends one clause,
  \<^verbatim>\<open>any\<close> attribute named \<^verbatim>\<open>productType\<close> with a value \<^verbatim>\<open>eq\<close> the given one. Each
  is appended whether or not the other is present, the cloud cover clause first.
\<close>

theorem query_url_clauses:
  "query_url start_date end_date polygon collection None None srid =
     ''https://catalogue.dataspace.copernicus.eu/odata/v1/Products?$filter='' @
     ''OData.CSC.Intersects(area=geography'' @ [CHR 0x27] @ ''SRID='' @ srid @
     '';POLYGON(('' @ polygon @ ''))'' @ [CHR 0x27] @ '')'' @
     '' and ContentDate/Start gt '' @ start_date @
     '' and ContentDate/Start lt '' @ end_date @
     '' and Collection/Name eq '' @ [CHR 0x27] @ collection @ [CHR 0x27] \<and>
   query_url start_date end_date polygon collection (Some cc) None srid =
     query_url start_date end_date polygon collection None None srid @
     '' and Attributes/OData.CSC.DoubleAttribute/any(att:att/Name eq '' @ [CHR 0x27] @
     ''cloudCover'' @ [CHR 0x27] @ '' and att/OData.CSC.DoubleAttribute/Value lt '' @
     str_int cc @ '')'' \<and>
   query_url start_date end_date polygon collection None (Some pt) srid =
     query_url start_date end_date polygon collection None None srid @
     '' and Attributes/OData.CSC.StringAttribute/any(att:att/Name eq '' @ [CHR 0x27] @
     ''productType'' @ [CHR 0x27] @ '' and att/OData.CSC.StringAttribute/Value eq '' @
     [CHR 0x27] @ pt @ [CHR 0x27] @ '')'' \<and>
   query_url start_date end_date polygon collection (Some cc) (Some pt) srid =
     query_url start_date end_date polygon collection None None srid @
     '' and Attributes/OData.CSC.DoubleAttribute/any(att:att/Name eq '' @ [CHR 0x27] @
     ''cloudCover'' @ [CHR 0x27] @ '' and att/OData.CSC.DoubleAttribute/Value lt '' @
     str_int cc @ '')'' @
     '' and Attributes/OData.CSC.StringAttribute/any(att:att/Name eq '' @ [CHR 0x27] @
     ''productType'' @ [CHR 0x27] @ '' and att/OData.CSC.StringAttribute/Value eq '' @
     [CHR 0x27] @ pt @ [CHR 0x27] @ '')''"
  by (simp add: query_url_def)

theorem query_url_clauses_witness:
  "query_url ''2024-04-30T00:00:00.000Z'' ''2024-05-01T00:00:00.000Z'' ''1 2, 3 4, 1 2''
     ''SENTINEL-2'' (Some 20) (Some ''S2MSI1C'') ''4326'' =
   ''https://catalogue.dataspace.copernicus.eu/odata/v1/Products?$filter='' @
   ''OData.CSC.Intersects(area=geography'' @ [CHR 0x27] @ ''SRID=4326;POLYGON((1 2, 3 4, 1 2))'' @
   [CHR 0x27] @ '')'' @
   '' and ContentDate/Start gt 2024-04-30T00:00:00.000Z'' @
   '' and ContentDate/Start lt 2024-05-01T00:00:00.000Z'' @
   '' and Collection/Name eq '' @ [CHR 0x27] @ ''SENTINEL-2'' @ [CHR 0x27] @
   '' and Attributes/OData.CSC.DoubleAttribute/any(att:att/Name eq '' @ [CHR 0x27] @
   ''cloudCover'' @ [CHR 0x27] @ '' and att/OData.CSC.DoubleAttribute/Value lt 20)'' @
   '' and Attributes/OData.CSC.StringAttribute/any(att:att/Name eq '' @ [CHR 0x27] @
   ''productType'' @ [CHR 0x27] @ '' and att/OData.CSC.StringAttribute/Value eq '' @
   [CHR 0x27] @ ''S2MSI1C'' @ [CHR 0x27] @ '')''"
proof -
  note q = query_url_clauses [of "''2024-04-30T00:00:00.000Z''" "''2024-05-01T00:00:00.000Z''"
      "''1 2, 3 4, 1 2''" "''SENTINEL-2''" "''4326''" 20 "''S2MSI1C''"]
  from q have a: "query_url ''2024-04-30T00:00:00.000Z'' ''2024-05-01T00:00:00.000Z''
      ''1 2, 3 4, 1 2'' ''SENTINEL-2'' (Some 20) (Some ''S2MSI1C'') ''4326'' =
     query_url ''2024-04-30T00:00:00.000Z'' ''2024-05-01T00:00:00.000Z''
      ''1 2, 3 4, 1 2'' ''SENTINEL-2'' None None ''4326'' @
     '' and Attributes/OData.CSC.DoubleAttribute/any(att:att/Name eq '' @ [CHR 0x27] @
     ''cloudCover'' @ [CHR 0x27] @ '' and att/OData.CSC.DoubleAttribute/Value lt '' @
     str_int 20 @ '')'' @
     '' and Attributes/OData.CSC.StringAttribute/any(att:att/Name eq '' @ [CHR 0x27] @
     ''productType'' @ [CHR 0x27] @ '' and att/OData.CSC.StringAttribute/Value eq '' @
     [CHR 0x27] @ ''S2MSI1C'' @ [CHR 0x27] @ '')''" by blast
  from q have b: "query_url ''2024-04-30T00:00:00.000Z'' ''2024-05-01T00:00:00.000Z''
      ''1 2, 3 4, 1 2'' ''SENTINEL-2'' None None ''4326'' =
     ''https://catalogue.dataspace.copernicus.eu/odata/v1/Products?$filter='' @
     ''OData.CSC.Intersects(area=geography'' @ [CHR 0x27] @ ''SRID='' @ ''4326'' @
     '';POLYGON(('' @ ''1 2, 3 4, 1 2'' @ ''))'' @ [CHR 0x27] @ '')'' @
     '' and ContentDate/Start gt '' @ ''2024-04-30T00:00:00.000Z'' @
     '' and ContentDate/Start lt '' @ ''2024-05-01T00:00:00.000Z'' @
     '' and Collection/Name eq '' @ [CHR 0x27] @ ''SENTINEL-2'' @ [CHR 0x27]" by blast
  show ?thesis unfolding a b str_int_20 by simp
qed

subsection \<open>The empty answer of the catalogue\<close>

text \<open>
  Claim C9. When the request returns a JSON object whose member \<^verbatim>\<open>value\<close> is the empty
  array, \<open>get_copernicus_image_metadata\<close> returns normally with the empty table, having
  printed the line that says no image was found.
\<close>

theorem empty_value_gives_empty_table:
  "http (query_url start_date end_date polygon collection cloud_cover product_type srid)
      = Inr json_response \<Longrightarrow>
   map_of json_response ''value'' = Some [] \<Longrightarrow>
   get_copernicus_image_metadata http start_date end_date polygon collection
       cloud_cover product_type srid w
     = (Inr [], w\<lparr>stdout := stdout w @ [NoImages]\<rparr>)"
  by (simp add: get_copernicus_image_metadata_def from_dict_def df_empty_def print_line_def)

theorem empty_value_gives_empty_table_witness:
  "get_copernicus_image_metadata (\<lambda>url. Inr [(''@odata.context'', []), (''value'', [])])
       ''2024-04-30T00:00:00.000Z'' ''2024-05-01T00:00:00.000Z'' ''1 2, 3 4, 1 2''
       ''SENTINEL-2'' None (Some ''S2MSI1C'') ''4326''
       \<lparr>disk = \<lparr>dirs = {}, files = Map.empty\<rparr>, stdout = []\<rparr>
     = (Inr [], \<lparr>disk = \<lparr>dirs = {}, files = Map.empty\<rparr>, stdout = [NoImages]\<rparr>)"
proof -
  have h: "map_of [(''@odata.context'', []), (''value'', [] :: row list)] ''value'' = Some []"
    by simp
  show ?thesis
    using empty_value_gives_empty_table [OF refl h, of "''2024-04-30T00:00:00.000Z''"
      "''2024-05-01T00:00:00.000Z''" "''1 2, 3 4, 1 2''" "''SENTINEL-2''" None "Some ''S2MSI1C''"
      "''4326''" "\<lparr>disk = \<lparr>dirs = {}, files = Map.empty\<rparr>, stdout = []\<rparr>"]
    by simp
qed

subsection \<open>The loops: helper facts\<close>

lemma rows_loop_append:
  "rows_loop b target (xs @ ys) w = rows_loop b target ys (rows_loop b target xs w)"
proof (induction xs arbitrary: w)
  case Nil
  then show ?case by simp
next
  case (Cons r xs)
  obtain idx s3path where r: "r = (idx, s3path)" by (cases r)
  show ?case unfolding r
    by (simp add: Let_def Cons.IH split: prod.split sum.split)
qed

lemma rows_loop_raise:
  assumes "download b (remove_prefix s3path ''/eodata/'') target (disk w) = (Inl e, fs')"
  shows "rows_loop b target ((idx, s3path) # rest) w =
     rows_loop b target rest
       (w\<lparr>disk := fs',
          stdout := stdout w @ [Progress (remove_prefix s3path ''/eodata/'') idx,
                               Failure (remove_prefix s3path ''/eodata/'') e]\<rparr>)"
  using assms by (simp add: Let_def print_line_def)

lemma rows_loop_return:
  assumes "download b (remove_prefix s3path ''/eodata/'') target (disk w) = (Inr u, fs')"
  shows "rows_loop b target ((idx, s3path) # rest) w =
     rows_loop b target rest
       (w\<lparr>stdout := stdout w @ [Progress (remove_prefix s3path ''/eodata/'') idx],
          disk := fs'\<rparr>)"
  using assms by (simp add: Let_def print_line_def)

lemma progress_of_append: "progress_of (xs @ ys) = progress_of xs @ progress_of ys"
  by (induction xs rule: progress_of.induct) simp_all

lemma rows_loop_progress:
  "progress_of (stdout (rows_loop b target rows w)) =
     progress_of (stdout w) @ map (\<lambda>(idx, s3path). (remove_prefix s3path ''/eodata/'', idx)) rows"
proof (induction rows arbitrary: w)
  case Nil
  then show ?case by simp
next
  case (Cons r rows)
  obtain idx s3path where r: "r = (idx, s3path)" by (cases r)
  obtain res fs' where d: "download b (remove_prefix s3path ''/eodata/'') target (disk w) = (res, fs')"
    by (cases "download b (remove_prefix s3path ''/eodata/'') target (disk w)")
  show ?case
  proof (cases res)
    case (Inl e)
    with d have d': "download b (remove_prefix s3path ''/eodata/'') target (disk w) = (Inl e, fs')"
      by simp
    show ?thesis unfolding r rows_loop_raise[OF d'] Cons.IH
      by (simp add: progress_of_append)
  next
    case (Inr u)
    with d have d': "download b (remove_prefix s3path ''/eodata/'') target (disk w) = (Inr u, fs')"
      by simp
    show ?thesis unfolding r rows_loop_return[OF d'] Cons.IH
      by (simp add: progress_of_append)
  qed
qed

lemma py_enumerate_map:
  "py_enumerate k xs = map (\<lambda>i. (k + int i, xs ! i)) [0..<length xs]"
proof (induction xs arbitrary: k)
  case Nil
  then show ?case by simp
next
  case (Cons x xs)
  have "[0..<length (x # xs)] = 0 # map Suc [0..<length xs]"
    by (simp add: upt_conv_Cons map_Suc_upt del: upt_Suc)
  then have "map (\<lambda>i. (k + int i, (x # xs) ! i)) [0..<length (x # xs)] =
        (k, x) # map (\<lambda>i. (k + 1 + int i, xs ! i)) [0..<length xs]"
    by (simp add: comp_def add.assoc del: upt_Suc)
  then show ?case using Cons.IH[of "k + 1"] by simp
qed

lemma py_slice_from_nonneg: "0 \<le> start \<Longrightarrow> py_slice_from xs start = drop (nat start) xs"
  by (cases "start \<le> int (length xs)") (simp_all add: py_slice_from_def Let_def min_def)

lemma upt_shift: "map (\<lambda>i. n + i) [0..<m] = [n..<n + m]"
  by (induction m) simp_all

lemma enumerate_slice_nonneg:
  assumes "0 \<le> start"
  shows "py_enumerate start (py_slice_from xs start) =
     map (\<lambda>i. (int i, xs ! i)) [nat start..<length xs]"
proof (cases "nat start \<le> length xs")
  case True
  let ?n = "nat start"
  have s: "start = int ?n" using assms by simp
  have "py_enumerate start (drop ?n xs) =
      map (\<lambda>i. (start + int i, drop ?n xs ! i)) [0..<length xs - ?n]"
    by (simp add: py_enumerate_map)
  also have "\<dots> = map (\<lambda>i. (int (?n + i), xs ! (?n + i))) [0..<length xs - ?n]"
    using True assms by (intro map_cong) (simp_all)
  also have "\<dots> = map (\<lambda>i. (int i, xs ! i)) (map (\<lambda>i. ?n + i) [0..<length xs - ?n])"
    by (simp add: comp_def)
  also have "map (\<lambda>i. ?n + i) [0..<length xs - ?n] = [?n..<length xs]"
    using True by (simp add: upt_shift)
  finally show ?thesis using assms by (simp add: py_slice_from_nonneg)
next
  case False
  then show ?thesis using assms by (simp add: py_slice_from_nonneg)
qed

lemma download_object_no_match:
  "extract_imagename (key f) = Inl e \<Longrightarrow> download_object target f fs = (Inl e, fs)"
  by (simp add: download_object_def)

lemma download_object_written:
  assumes "extract_imagename (key f) = Inr imagename" "body f = Inr bytes"
  shows "download_object target f fs =
    (Inr (), fs\<lparr>dirs := insert (os_path_join target imagename) (dirs fs),
               files := (files fs)(os_path_join (os_path_join target imagename)
                                    (basename (key f)) \<mapsto> bytes)\<rparr>)"
  using assms by (simp add: download_object_def download_file_def makedirs_def Let_def)

lemma download_object_fetch_raises:
  assumes "extract_imagename (key f) = Inr imagename" "body f = Inl e"
  shows "download_object target f fs = (Inl e, makedirs (os_path_join target imagename) fs)"
  using assms by (simp add: download_object_def download_file_def Let_def)

lemma download_object_cases:
  obtains (no_match) e where "extract_imagename (key f) = Inl e"
  | (raises) imagename e where "extract_imagename (key f) = Inr imagename" "body f = Inl e"
  | (written) imagename bytes where "extract_imagename (key f) = Inr imagename" "body f = Inr bytes"
  by (cases "extract_imagename (key f)"; cases "body f") auto

lemma download_object_grows:
  "dirs fs \<subseteq> dirs (snd (download_object target f fs)) \<and>
   dom (files fs) \<subseteq> dom (files (snd (download_object target f fs)))"
proof (cases f rule: download_object_cases)
  case (no_match e)
  then show ?thesis by (simp add: download_object_no_match)
next
  case (raises imagename e)
  then show ?thesis by (auto simp: download_object_fetch_raises makedirs_def)
next
  case (written imagename bytes)
  then show ?thesis by (auto simp: download_object_written)
qed

lemma download_loop_grows:
  "dirs fs \<subseteq> dirs (snd (download_loop target xs fs)) \<and>
   dom (files fs) \<subseteq> dom (files (snd (download_loop target xs fs)))"
proof (induction xs arbitrary: fs)
  case Nil
  then show ?case by simp
next
  case (Cons f xs)
  obtain r fs' where d: "download_object target f fs = (r, fs')"
    by (cases "download_object target f fs")
  have g: "dirs fs \<subseteq> dirs fs'" "dom (files fs) \<subseteq> dom (files fs')"
    using download_object_grows[of fs target f] d by simp_all
  show ?case
  proof (cases r)
    case (Inl e)
    with d g show ?thesis by simp
  next
    case (Inr u)
    have "dirs fs' \<subseteq> dirs (snd (download_loop target xs fs'))"
      "dom (files fs') \<subseteq> dom (files (snd (download_loop target xs fs')))"
      using Cons.IH[of fs'] by simp_all
    then have "dirs fs \<subseteq> dirs (snd (download_loop target xs fs'))"
      "dom (files fs) \<subseteq> dom (files (snd (download_loop target xs fs')))"
      using g by (blast intro: subset_trans)+
    moreover have "download_loop target (f # xs) fs = download_loop target xs fs'"
      using Inr d by simp
    ultimately show ?thesis by simp
  qed
qed

lemma download_loop_done:
  assumes "fst (download_loop target xs fs) = Inr ()" "g \<in> set xs"
  shows "\<exists>imagename bytes. extract_imagename (key g) = Inr imagename \<and> body g = Inr bytes \<and>
     os_path_join target imagename \<in> dirs (snd (download_loop target xs fs)) \<and>
     os_path_join (os_path_join target imagename) (basename (key g))
       \<in> dom (files (snd (download_loop target xs fs)))"
  using assms
proof (induction xs arbitrary: fs)
  case Nil
  then show ?case by simp
next
  case (Cons f xs)
  show ?case
  proof (cases f rule: download_object_cases)
    case (no_match e)
    with Cons.prems(1) show ?thesis by (simp add: download_object_no_match)
  next
    case (raises imagename e)
    with Cons.prems(1) show ?thesis by (simp add: download_object_fetch_raises)
  next
    case (written imagename bytes)
    let ?fs' = "fs\<lparr>dirs := insert (os_path_join target imagename) (dirs fs),
               files := (files fs)(os_path_join (os_path_join target imagename)
                                    (basename (key f)) \<mapsto> bytes)\<rparr>"
    have step: "download_loop target (f # xs) fs = download_loop target xs ?fs'"
      using written by (simp add: download_object_written)
    have ok: "fst (download_loop target xs ?fs') = Inr ()" using Cons.prems(1) step by simp
    show ?thesis
    proof (cases "g = f")
      case True
      have "os_path_join target imagename \<in> dirs ?fs'" by simp
      moreover have "os_path_join (os_path_join target imagename) (basename (key f))
          \<in> dom (files ?fs')" by simp
      ultimately have "os_path_join target imagename \<in> dirs (snd (download_loop target xs ?fs'))"
        "os_path_join (os_path_join target imagename) (basename (key f))
          \<in> dom (files (snd (download_loop target xs ?fs')))"
        using download_loop_grows[of ?fs' target xs] by blast+
      with written True step show ?thesis by simp
    next
      case False
      with Cons.prems(2) have "g \<in> set xs" by simp
      from Cons.IH[OF ok this] step show ?thesis by simp
    qed
  qed
qed

lemma download_listing:
  "objects_filter b product = x # xs \<Longrightarrow>
     download b product target fs = download_loop target (x # xs) fs"
  by (simp add: download_def Let_def)

lemma download_listing_split:
  "objects_filter b product = pre @ f # post \<Longrightarrow>
     download b product target fs = download_loop target (pre @ f # post) fs"
  by (simp add: download_def Let_def)

lemma download_object_placed:
  assumes "objects_filter b product = pre @ f # post"
    and "fst (download_loop target pre fs) = Inr ()"
    and "extract_imagename (key f) = Inr imagename"
    and "body f = Inr bytes"
  shows "download_loop target (pre @ [f]) fs =
       (Inr (),
        (snd (download_loop target pre fs))
          \<lparr>dirs := insert (os_path_join target imagename)
                     (dirs (snd (download_loop target pre fs))),
           files := (files (snd (download_loop target pre fs)))
                      (os_path_join (os_path_join target imagename) (basename (key f))
                         \<mapsto> bytes)\<rparr>) \<and>
     os_path_join target imagename \<in> dirs (snd (download b product target fs)) \<and>
     os_path_join (os_path_join target imagename) (basename (key f))
       \<in> dom (files (snd (download b product target fs)))"
proof -
  define fs1 where "fs1 = snd (download_loop target pre fs)"
  define fs2 where "fs2 = fs1\<lparr>dirs := insert (os_path_join target imagename) (dirs fs1),
           files := (files fs1)(os_path_join (os_path_join target imagename) (basename (key f))
                         \<mapsto> bytes)\<rparr>"
  have p': "download_loop target pre fs = (Inr (), fs1)"
    using assms(2) by (simp add: fs1_def prod_eq_iff)
  have o: "download_object target f fs1 = (Inr (), fs2)"
    unfolding fs2_def using assms(3,4) by (rule download_object_written)
  have one: "download_loop target (pre @ [f]) fs = (Inr (), fs2)"
    by (simp add: download_loop_append p' o)
  have "download_loop target ((pre @ [f]) @ post) fs = download_loop target post fs2"
    by (simp only: download_loop_append[of target "pre @ [f]" post fs] one prod.case sum.case)
  then have all: "download b product target fs = download_loop target post fs2"
    using download_listing_split[OF assms(1), of target fs] by simp
  have "os_path_join target imagename \<in> dirs fs2"
    "os_path_join (os_path_join target imagename) (basename (key f)) \<in> dom (files fs2)"
    by (simp_all add: fs2_def)
  then have "os_path_join target imagename \<in> dirs (snd (download_loop target post fs2))"
    "os_path_join (os_path_join target imagename) (basename (key f))
       \<in> dom (files (snd (download_loop target post fs2)))"
    using download_loop_grows[of fs2 target post] by blast+
  then have in_final: "os_path_join target imagename \<in> dirs (snd (download b product target fs))"
    "os_path_join (os_path_join target imagename) (basename (key f))
       \<in> dom (files (snd (download b product target fs)))"
    by (simp_all only: all)
  from one have "download_loop target (pre @ [f]) fs =
       (Inr (),
        (snd (download_loop target pre fs))
          \<lparr>dirs := insert (os_path_join target imagename)
                     (dirs (snd (download_loop target pre fs))),
           files := (files (snd (download_loop target pre fs)))
                      (os_path_join (os_path_join target imagename) (basename (key f))
                         \<mapsto> bytes)\<rparr>)"
    by (simp only: fs2_def fs1_def)
  with in_final show ?thesis by (intro conjI)
qed

subsection \<open>Concrete keys used in the examples\<close>

lemma extract_example_key:
  "extract_imagename
     ''Sentinel-2/MSI/L1C/2024/04/30/S2B_MSIL1C_20240430T153609_N0510_R110_T17QKA.SAFE/file1.jp2''
   = Inr ''S2B_MSIL1C_20240430T153609_N0510_R110_T17QKA''"
  by code_simp

lemma basename_example_key:
  "basename
     ''Sentinel-2/MSI/L1C/2024/04/30/S2B_MSIL1C_20240430T153609_N0510_R110_T17QKA.SAFE/file1.jp2''
   = ''file1.jp2''"
  by (simp add: basename_def)

lemma end_to_end_example:
  assumes "s3 ''eodata'' =
    [\<lparr>key = ''Sentinel-2/MSI/L1C/2024/04/30/S2B_MSIL1C_20240430T153609_N0510_R110_T17QKA.SAFE/file1.jp2'',
      body = Inr bytes\<rparr>]"
  shows "files (disk (download_copernicus_images s3
       [''/eodata/Sentinel-2/MSI/L1C/2024/04/30/S2B_MSIL1C_20240430T153609_N0510_R110_T17QKA.SAFE/file1.jp2'']
       0 ''out/'' w))
     ''out/S2B_MSIL1C_20240430T153609_N0510_R110_T17QKA/file1.jp2'' = Some bytes"
proof -
  let ?k = "''Sentinel-2/MSI/L1C/2024/04/30/S2B_MSIL1C_20240430T153609_N0510_R110_T17QKA.SAFE/file1.jp2''"
  let ?f = "\<lparr>key = ?k, body = Inr bytes\<rparr>"
  let ?fs2 = "(disk w)\<lparr>dirs := insert ''out/S2B_MSIL1C_20240430T153609_N0510_R110_T17QKA'' (dirs (disk w)),
      files := (files (disk w))(''out/S2B_MSIL1C_20240430T153609_N0510_R110_T17QKA/file1.jp2'' \<mapsto> bytes)\<rparr>"
  have l: "objects_filter (s3 ''eodata'') ?k = [] @ ?f # []"
    by (simp add: assms objects_filter_def)
  have e: "extract_imagename (key ?f) = Inr ''S2B_MSIL1C_20240430T153609_N0510_R110_T17QKA''"
    using extract_example_key by simp
  have j1: "os_path_join ''out/'' ''S2B_MSIL1C_20240430T153609_N0510_R110_T17QKA''
      = ''out/S2B_MSIL1C_20240430T153609_N0510_R110_T17QKA''"
    by (simp add: os_path_join_def suffix_to_prefix)
  have j2: "os_path_join ''out/S2B_MSIL1C_20240430T153609_N0510_R110_T17QKA'' ''file1.jp2''
      = ''out/S2B_MSIL1C_20240430T153609_N0510_R110_T17QKA/file1.jp2''"
    by (simp add: os_path_join_def suffix_to_prefix)
  have "download_loop ''out/'' ([] @ [?f]) (disk w) = (Inr (), ?fs2)"
    using download_object_placed[OF l _ e, of "''out/''" "disk w" bytes] basename_example_key
    by (simp add: j1 j2)
  then have d: "download (s3 ''eodata'') ?k ''out/'' (disk w) = (Inr (), ?fs2)"
    using download_listing_split[OF l, of "''out/''" "disk w"] by simp
  have r: "remove_prefix (''/eodata/'' @ ?k) ''/eodata/'' = ?k"
    by (simp add: remove_prefix_def)
  have d': "download (s3 ''eodata'') (remove_prefix (''/eodata/'' @ ?k) ''/eodata/'') ''out/'' (disk w)
      = (Inr (), ?fs2)"
    using d by (simp only: r)
  have en: "py_enumerate 0 (py_slice_from [''/eodata/'' @ ?k] 0) = [(0, ''/eodata/'' @ ?k)]"
    by (simp add: py_slice_from_def)
  have "download_copernicus_images s3 [''/eodata/'' @ ?k] 0 ''out/'' w
      = w\<lparr>stdout := stdout w @ [Progress ?k 0], disk := ?fs2\<rparr>"
    unfolding download_copernicus_images_def en rows_loop_return[OF d'] r by simp
  then have "files (disk (download_copernicus_images s3 [''/eodata/'' @ ?k] 0 ''out/'' w))
     ''out/S2B_MSIL1C_20240430T153609_N0510_R110_T17QKA/file1.jp2'' = Some bytes"
    by simp
  then show ?thesis by simp
qed

lemma extract_x:
  "extract_imagename ''a/S2A_MSIL1C_1T2_N3_R4_T5.SAFE/x.jp2'' = Inr ''S2A_MSIL1C_1T2_N3_R4_T5''"
  by code_simp

lemma extract_y:
  "extract_imagename ''a/S2A_MSIL1C_1T2_N3_R4_T5.SAFE/y.jp2'' = Inr ''S2A_MSIL1C_1T2_N3_R4_T5''"
  by code_simp

lemma extract_notes: "extract_imagename ''a/notes.txt'' = Inl ValueError"
  by code_simp

lemma extract_c:
  "extract_imagename ''c/S2B_MSIL2A_6T7_N8_R9_T0.SAFE/z.jp2'' = Inr ''S2B_MSIL2A_6T7_N8_R9_T0''"
  by code_simp

lemma loop_x:
  "download_loop ''out'' [\<lparr>key = ''a/S2A_MSIL1C_1T2_N3_R4_T5.SAFE/x.jp2'', body = Inr ''xx''\<rparr>]
     \<lparr>dirs = {}, files = Map.empty\<rparr>
   = (Inr (), \<lparr>dirs = {''out/S2A_MSIL1C_1T2_N3_R4_T5''},
              files = [''out/S2A_MSIL1C_1T2_N3_R4_T5/x.jp2'' \<mapsto> ''xx'']\<rparr>)"
  by (simp add: download_object_def extract_x basename_def os_path_join_def makedirs_def
      download_file_def suffix_to_prefix)

subsection \<open>A key without the pattern in the middle of a listing\<close>

text \<open>
  Claim C10. Let the listing be \<open>pre @ f # post\<close>, let the loop arrive at \<open>f\<close> (the
  objects of \<open>pre\<close> were processed without an exception) and let the key of \<open>f\<close> fail
  the pattern. Then \<open>download\<close> ends with \<open>ValueError\<close> and leaves the file system as the
  download of \<open>pre\<close> left it: the step of \<open>f\<close> itself changes nothing (no directory, no
  file), and for every object of \<open>pre\<close> the directory of its image name and the file of
  its base name are there.
\<close>

theorem pattern_failure_keeps_earlier_files:
  assumes "objects_filter b product = pre @ f # post"
    and "fst (download_loop target pre fs) = Inr ()"
    and "extract_imagename (key f) = Inl ValueError"
  shows "download b product target fs = (Inl ValueError, snd (download_loop target pre fs)) \<and>
     download_object target f (snd (download_loop target pre fs))
       = (Inl ValueError, snd (download_loop target pre fs)) \<and>
     (\<forall>g \<in> set pre. \<exists>imagename bytes.
        extract_imagename (key g) = Inr imagename \<and> body g = Inr bytes \<and>
        os_path_join target imagename \<in> dirs (snd (download b product target fs)) \<and>
        os_path_join (os_path_join target imagename) (basename (key g))
          \<in> dom (files (snd (download b product target fs))))"
proof -
  let ?fs1 = "snd (download_loop target pre fs)"
  have o: "download_object target f ?fs1 = (Inl ValueError, ?fs1)"
    using assms(3) by (rule download_object_no_match)
  have d: "download b product target fs = (Inl ValueError, ?fs1)"
    using download_listing_split[OF assms(1)] download_loop_abort[OF assms(2) o] by simp
  have "\<exists>imagename bytes.
        extract_imagename (key g) = Inr imagename \<and> body g = Inr bytes \<and>
        os_path_join target imagename \<in> dirs (snd (download b product target fs)) \<and>
        os_path_join (os_path_join target imagename) (basename (key g))
          \<in> dom (files (snd (download b product target fs)))" if "g \<in> set pre" for g
    using download_loop_done[OF assms(2) that] d by simp
  with o d show ?thesis by blast
qed

theorem pattern_failure_keeps_earlier_files_witness:
  "objects_filter
     [\<lparr>key = ''a/S2A_MSIL1C_1T2_N3_R4_T5.SAFE/x.jp2'', body = Inr ''xx''\<rparr>,
      \<lparr>key = ''b/other'', body = Inr ''bb''\<rparr>,
      \<lparr>key = ''a/notes.txt'', body = Inr ''nn''\<rparr>,
      \<lparr>key = ''a/S2A_MSIL1C_1T2_N3_R4_T5.SAFE/y.jp2'', body = Inr ''yy''\<rparr>] ''a/''
     = [\<lparr>key = ''a/S2A_MSIL1C_1T2_N3_R4_T5.SAFE/x.jp2'', body = Inr ''xx''\<rparr>] @
       \<lparr>key = ''a/notes.txt'', body = Inr ''nn''\<rparr> #
       [\<lparr>key = ''a/S2A_MSIL1C_1T2_N3_R4_T5.SAFE/y.jp2'', body = Inr ''yy''\<rparr>] \<and>
   download
     [\<lparr>key = ''a/S2A_MSIL1C_1T2_N3_R4_T5.SAFE/x.jp2'', body = Inr ''xx''\<rparr>,
      \<lparr>key = ''b/other'', body = Inr ''bb''\<rparr>,
      \<lparr>key = ''a/notes.txt'', body = Inr ''nn''\<rparr>,
      \<lparr>key = ''a/S2A_MSIL1C_1T2_N3_R4_T5.SAFE/y.jp2'', body = Inr ''yy''\<rparr>] ''a/'' ''out''
     \<lparr>dirs = {}, files = Map.empty\<rparr>
   = (Inl ValueError,
      \<lparr>dirs = {''out/S2A_MSIL1C_1T2_N3_R4_T5''},
       files = [''out/S2A_MSIL1C_1T2_N3_R4_T5/x.jp2'' \<mapsto> ''xx'']\<rparr>)"
proof -
  let ?ox = "\<lparr>key = ''a/S2A_MSIL1C_1T2_N3_R4_T5.SAFE/x.jp2'', body = Inr ''xx''\<rparr>"
  let ?ob = "\<lparr>key = ''b/other'', body = Inr ''bb''\<rparr>"
  let ?on = "\<lparr>key = ''a/notes.txt'', body = Inr ''nn''\<rparr>"
  let ?oy = "\<lparr>key = ''a/S2A_MSIL1C_1T2_N3_R4_T5.SAFE/y.jp2'', body = Inr ''yy''\<rparr>"
  let ?fs0 = "\<lparr>dirs = {}, files = Map.empty\<rparr>"
  have l: "objects_filter [?ox, ?ob, ?on, ?oy] ''a/'' = [?ox] @ ?on # [?oy]"
    by (simp add: objects_filter_def)
  have ok: "fst (download_loop ''out'' [?ox] ?fs0) = Inr ()" by (simp only: loop_x fst_conv)
  have nm: "extract_imagename (key ?on) = Inl ValueError" using extract_notes by simp
  from pattern_failure_keeps_earlier_files [OF l ok nm]
  have "download [?ox, ?ob, ?on, ?oy] ''a/'' ''out'' ?fs0
      = (Inl ValueError, snd (download_loop ''out'' [?ox] ?fs0))" by blast
  then have "download [?ox, ?ob, ?on, ?oy] ''a/'' ''out'' ?fs0
      = (Inl ValueError, \<lparr>dirs = {''out/S2A_MSIL1C_1T2_N3_R4_T5''},
       files = [''out/S2A_MSIL1C_1T2_N3_R4_T5/x.jp2'' \<mapsto> ''xx'']\<rparr>)"
    by (simp only: loop_x snd_conv)
  with l show ?thesis by (intro conjI)
qed

subsection \<open>A transfer that fails in the middle of a listing\<close>

lemma loop_c:
  "download_loop ''out'' [\<lparr>key = ''c/S2B_MSIL2A_6T7_N8_R9_T0.SAFE/z.jp2'', body = Inr ''zz''\<rparr>] fs
   = (Inr (), fs\<lparr>dirs := insert ''out/S2B_MSIL2A_6T7_N8_R9_T0'' (dirs fs),
                 files := (files fs)(''out/S2B_MSIL2A_6T7_N8_R9_T0/z.jp2'' \<mapsto> ''zz'')\<rparr>)"
  by (simp add: download_object_def extract_c basename_def os_path_join_def makedirs_def
      download_file_def suffix_to_prefix)

text \<open>
  Claim C6. Let the listing of the prefix be \<open>pre @ f # post\<close>, let the loop arrive at
  \<open>f\<close>, let the key of \<open>f\<close> carry an image name and let the transfer of \<open>f\<close> raise
  \<open>e\<close>. Then \<open>download\<close> ends with \<open>e\<close>: nothing in it catches the exception, and the
  file system holds what the objects of \<open>pre\<close> left and the directory made for \<open>f\<close>,
  whatever \<open>post\<close> is, so the objects behind \<open>f\<close> are skipped. In the loop over the
  rows the handler prints the failure with the stripped path and the error, and the loop
  goes on with the rows that follow.
\<close>

theorem transfer_failure_skips_rest_of_prefix:
  assumes "objects_filter b product = pre @ f # post"
    and "fst (download_loop target pre (disk w)) = Inr ()"
    and "extract_imagename (key f) = Inr imagename"
    and "body f = Inl e"
    and "remove_prefix s3path ''/eodata/'' = product"
  shows "download b product target (disk w)
       = (Inl e, makedirs (os_path_join target imagename)
                   (snd (download_loop target pre (disk w)))) \<and>
     rows_loop b target ((idx, s3path) # rest) w
       = rows_loop b target rest
           (w\<lparr>disk := makedirs (os_path_join target imagename)
                        (snd (download_loop target pre (disk w))),
              stdout := stdout w @ [Progress product idx, Failure product e]\<rparr>)"
proof -
  let ?fs1 = "snd (download_loop target pre (disk w))"
  have o: "download_object target f ?fs1 = (Inl e, makedirs (os_path_join target imagename) ?fs1)"
    using assms(3,4) by (rule download_object_fetch_raises)
  have d: "download b product target (disk w)
      = (Inl e, makedirs (os_path_join target imagename) ?fs1)"
    using download_listing_split[OF assms(1)] download_loop_abort[OF assms(2) o] by simp
  have d': "download b (remove_prefix s3path ''/eodata/'') target (disk w)
      = (Inl e, makedirs (os_path_join target imagename) ?fs1)"
    using d assms(5) by simp
  show ?thesis using d rows_loop_raise[OF d', of idx rest] assms(5) by simp
qed

theorem transfer_failure_skips_rest_of_prefix_witness:
  "objects_filter
     [\<lparr>key = ''a/S2A_MSIL1C_1T2_N3_R4_T5.SAFE/x.jp2'', body = Inr ''xx''\<rparr>,
      \<lparr>key = ''a/S2A_MSIL1C_1T2_N3_R4_T5.SAFE/y.jp2'', body = Inl (TransferError ''timeout'')\<rparr>,
      \<lparr>key = ''a/S2A_MSIL1C_1T2_N3_R4_T5.SAFE/z.jp2'', body = Inr ''z1''\<rparr>,
      \<lparr>key = ''c/S2B_MSIL2A_6T7_N8_R9_T0.SAFE/z.jp2'', body = Inr ''zz''\<rparr>] ''a/''
     = [\<lparr>key = ''a/S2A_MSIL1C_1T2_N3_R4_T5.SAFE/x.jp2'', body = Inr ''xx''\<rparr>] @
       \<lparr>key = ''a/S2A_MSIL1C_1T2_N3_R4_T5.SAFE/y.jp2'', body = Inl (TransferError ''timeout'')\<rparr> #
       [\<lparr>key = ''a/S2A_MSIL1C_1T2_N3_R4_T5.SAFE/z.jp2'', body = Inr ''z1''\<rparr>] \<and>
   rows_loop
     [\<lparr>key = ''a/S2A_MSIL1C_1T2_N3_R4_T5.SAFE/x.jp2'', body = Inr ''xx''\<rparr>,
      \<lparr>key = ''a/S2A_MSIL1C_1T2_N3_R4_T5.SAFE/y.jp2'', body = Inl (TransferError ''timeout'')\<rparr>,
      \<lparr>key = ''a/S2A_MSIL1C_1T2_N3_R4_T5.SAFE/z.jp2'', body = Inr ''z1''\<rparr>,
      \<lparr>key = ''c/S2B_MSIL2A_6T7_N8_R9_T0.SAFE/z.jp2'', body = Inr ''zz''\<rparr>]
     ''out'' [(0, ''/eodata/a/''), (1, ''/eodata/c/'')]
     \<lparr>disk = \<lparr>dirs = {}, files = Map.empty\<rparr>, stdout = []\<rparr>
   = \<lparr>disk = \<lparr>dirs = {''out/S2B_MSIL2A_6T7_N8_R9_T0'', ''out/S2A_MSIL1C_1T2_N3_R4_T5''},
              files = [''out/S2A_MSIL1C_1T2_N3_R4_T5/x.jp2'' \<mapsto> ''xx'',
                       ''out/S2B_MSIL2A_6T7_N8_R9_T0/z.jp2'' \<mapsto> ''zz'']\<rparr>,
      stdout = [Progress ''a/'' 0, Failure ''a/'' (TransferError ''timeout''),
                Progress ''c/'' 1]\<rparr>"
proof -
  let ?ox = "\<lparr>key = ''a/S2A_MSIL1C_1T2_N3_R4_T5.SAFE/x.jp2'', body = Inr ''xx''\<rparr>"
  let ?oy = "\<lparr>key = ''a/S2A_MSIL1C_1T2_N3_R4_T5.SAFE/y.jp2'', body = Inl (TransferError ''timeout'')\<rparr>"
  let ?oz = "\<lparr>key = ''a/S2A_MSIL1C_1T2_N3_R4_T5.SAFE/z.jp2'', body = Inr ''z1''\<rparr>"
  let ?oc = "\<lparr>key = ''c/S2B_MSIL2A_6T7_N8_R9_T0.SAFE/z.jp2'', body = Inr ''zz''\<rparr>"
  let ?b = "[?ox, ?oy, ?oz, ?oc]"
  let ?fs0 = "\<lparr>dirs = {}, files = Map.empty\<rparr>"
  let ?w0 = "\<lparr>disk = ?fs0, stdout = []\<rparr>"
  let ?fsx = "\<lparr>dirs = {''out/S2A_MSIL1C_1T2_N3_R4_T5''},
              files = [''out/S2A_MSIL1C_1T2_N3_R4_T5/x.jp2'' \<mapsto> ''xx'']\<rparr>"
  let ?w1 = "\<lparr>disk = ?fsx, stdout = [Progress ''a/'' 0, Failure ''a/'' (TransferError ''timeout'')]\<rparr>"
  have l: "objects_filter ?b ''a/'' = [?ox] @ ?oy # [?oz]"
    by (simp add: objects_filter_def)
  have ok: "fst (download_loop ''out'' [?ox] (disk ?w0)) = Inr ()"
    by (simp only: world.simps loop_x fst_conv)
  have ey: "extract_imagename (key ?oy) = Inr ''S2A_MSIL1C_1T2_N3_R4_T5''"
    using extract_y by simp
  have bd: "body ?oy = Inl (TransferError ''timeout'')" by simp
  have rp: "remove_prefix ''/eodata/a/'' ''/eodata/'' = ''a/''" by (simp add: remove_prefix_def)
  have mk: "makedirs (os_path_join ''out'' ''S2A_MSIL1C_1T2_N3_R4_T5'')
      (snd (download_loop ''out'' [?ox] (disk ?w0))) = ?fsx"
    by (simp only: world.simps loop_x snd_conv) (simp add: makedirs_def os_path_join_def suffix_to_prefix)
  from transfer_failure_skips_rest_of_prefix [OF l ok ey bd rp, of 0 "[(1, ''/eodata/c/'')]"]
  have step: "rows_loop ?b ''out'' [(0, ''/eodata/a/''), (1, ''/eodata/c/'')] ?w0
      = rows_loop ?b ''out'' [(1, ''/eodata/c/'')] ?w1"
    by (simp only: mk) simp
  have lc: "objects_filter ?b ''c/'' = [?oc]" by (simp add: objects_filter_def)
  have dc: "download ?b (remove_prefix ''/eodata/c/'' ''/eodata/'') ''out'' (disk ?w1)
      = (Inr (), ?fsx\<lparr>dirs := insert ''out/S2B_MSIL2A_6T7_N8_R9_T0'' (dirs ?fsx),
                 files := (files ?fsx)(''out/S2B_MSIL2A_6T7_N8_R9_T0/z.jp2'' \<mapsto> ''zz'')\<rparr>)"
    using download_listing [OF lc, of "''out''" ?fsx] loop_c [of ?fsx]
    by (simp add: remove_prefix_def)
  have "rows_loop ?b ''out'' [(1, ''/eodata/c/'')] ?w1
      = \<lparr>disk = \<lparr>dirs = {''out/S2B_MSIL2A_6T7_N8_R9_T0'', ''out/S2A_MSIL1C_1T2_N3_R4_T5''},
              files = [''out/S2A_MSIL1C_1T2_N3_R4_T5/x.jp2'' \<mapsto> ''xx'',
                       ''out/S2B_MSIL2A_6T7_N8_R9_T0/z.jp2'' \<mapsto> ''zz'']\<rparr>,
      stdout = [Progress ''a/'' 0, Failure ''a/'' (TransferError ''timeout''),
                Progress ''c/'' 1]\<rparr>"
    unfolding rows_loop_return [OF dc] by (simp add: remove_prefix_def)
  with step l show ?thesis by (simp only:) 
qed

subsection \<open>Where an object is written\<close>

lemma extract_readme: "extract_imagename ''a/README.txt'' = Inl ValueError"
  by code_simp

text \<open>
  Claim C7, as amended. For a listed object \<open>f\<close> at which the loop arrives (the objects
  before it in the listing were processed without an exception), whose key carries an
  image name and whose transfer delivers its bytes, the step of \<open>f\<close> adds the directory
  \<^verbatim>\<open>os.path.join(target, imagename)\<close> (adding a directory that is there changes
  nothing) and sets the file \<^verbatim>\<open>os.path.join(imagepath, basename(key))\<close> to the bytes,
  whatever the file held; directory and file are still there when \<open>download\<close> ends. In
  particular the row with the path
  \<^verbatim>\<open>/eodata/Sentinel-2/MSI/L1C/2024/04/30/S2B_MSIL1C_20240430T153609_N0510_R110_T17QKA.SAFE/file1.jp2\<close>
  and the target \<^verbatim>\<open>out/\<close> gives the file
  \<^verbatim>\<open>out/S2B_MSIL1C_20240430T153609_N0510_R110_T17QKA/file1.jp2\<close> with the content of
  the object.
\<close>

theorem object_written_under_image_name:
  "(objects_filter b product = pre @ f # post \<and>
    fst (download_loop target pre fs) = Inr () \<and>
    extract_imagename (key f) = Inr imagename \<and>
    body f = Inr bytes \<longrightarrow>
      download_loop target (pre @ [f]) fs =
        (Inr (),
         (snd (download_loop target pre fs))
           \<lparr>dirs := insert (os_path_join target imagename)
                      (dirs (snd (download_loop target pre fs))),
            files := (files (snd (download_loop target pre fs)))
                       (os_path_join (os_path_join target imagename) (basename (key f))
                          \<mapsto> bytes)\<rparr>) \<and>
      os_path_join target imagename \<in> dirs (snd (download b product target fs)) \<and>
      os_path_join (os_path_join target imagename) (basename (key f))
        \<in> dom (files (snd (download b product target fs)))) \<and>
   (s3 ''eodata'' =
      [\<lparr>key = ''Sentinel-2/MSI/L1C/2024/04/30/S2B_MSIL1C_20240430T153609_N0510_R110_T17QKA.SAFE/file1.jp2'',
        body = Inr content\<rparr>] \<longrightarrow>
      files (disk (download_copernicus_images s3
          [''/eodata/Sentinel-2/MSI/L1C/2024/04/30/S2B_MSIL1C_20240430T153609_N0510_R110_T17QKA.SAFE/file1.jp2'']
          0 ''out/'' w))
        ''out/S2B_MSIL1C_20240430T153609_N0510_R110_T17QKA/file1.jp2'' = Some content)"
proof (intro conjI impI)
  assume a: "objects_filter b product = pre @ f # post \<and>
    fst (download_loop target pre fs) = Inr () \<and>
    extract_imagename (key f) = Inr imagename \<and>
    body f = Inr bytes"
  then have a1: "objects_filter b product = pre @ f # post"
    and a2: "fst (download_loop target pre fs) = Inr ()"
    and a3: "extract_imagename (key f) = Inr imagename"
    and a4: "body f = Inr bytes" by blast+
  note p = download_object_placed [OF a1 a2 a3 a4]
  from p show "download_loop target (pre @ [f]) fs =
        (Inr (),
         (snd (download_loop target pre fs))
           \<lparr>dirs := insert (os_path_join target imagename)
                      (dirs (snd (download_loop target pre fs))),
            files := (files (snd (download_loop target pre fs)))
                       (os_path_join (os_path_join target imagename) (basename (key f))
                          \<mapsto> bytes)\<rparr>)" by (rule conjunct1)
  from p show "os_path_join target imagename \<in> dirs (snd (download b product target fs))"
    by (elim conjE)
  from p show "os_path_join (os_path_join target imagename) (basename (key f))
        \<in> dom (files (snd (download b product target fs)))"
    by (elim conjE)
next
  assume "s3 ''eodata'' =
      [\<lparr>key = ''Sentinel-2/MSI/L1C/2024/04/30/S2B_MSIL1C_20240430T153609_N0510_R110_T17QKA.SAFE/file1.jp2'',
        body = Inr content\<rparr>]"
  then show "files (disk (download_copernicus_images s3
          [''/eodata/Sentinel-2/MSI/L1C/2024/04/30/S2B_MSIL1C_20240430T153609_N0510_R110_T17QKA.SAFE/file1.jp2'']
          0 ''out/'' w))
        ''out/S2B_MSIL1C_20240430T153609_N0510_R110_T17QKA/file1.jp2'' = Some content"
    by (rule end_to_end_example)
qed

theorem object_written_under_image_name_witness:
  "objects_filter
     [\<lparr>key = ''a/S2A_MSIL1C_1T2_N3_R4_T5.SAFE/x.jp2'', body = Inr ''xx''\<rparr>,
      \<lparr>key = ''a/S2A_MSIL1C_1T2_N3_R4_T5.SAFE/y.jp2'', body = Inr ''yy''\<rparr>] ''a/''
     = [\<lparr>key = ''a/S2A_MSIL1C_1T2_N3_R4_T5.SAFE/x.jp2'', body = Inr ''xx''\<rparr>] @
       \<lparr>key = ''a/S2A_MSIL1C_1T2_N3_R4_T5.SAFE/y.jp2'', body = Inr ''yy''\<rparr> # [] \<and>
   download_loop ''out''
     ([\<lparr>key = ''a/S2A_MSIL1C_1T2_N3_R4_T5.SAFE/x.jp2'', body = Inr ''xx''\<rparr>] @
      [\<lparr>key = ''a/S2A_MSIL1C_1T2_N3_R4_T5.SAFE/y.jp2'', body = Inr ''yy''\<rparr>])
     \<lparr>dirs = {}, files = Map.empty\<rparr>
   = (Inr (),
      \<lparr>dirs = {''out/S2A_MSIL1C_1T2_N3_R4_T5''},
       files = [''out/S2A_MSIL1C_1T2_N3_R4_T5/x.jp2'' \<mapsto> ''xx'',
                ''out/S2A_MSIL1C_1T2_N3_R4_T5/y.jp2'' \<mapsto> ''yy'']\<rparr>) \<and>
   files (disk (download_copernicus_images
       (\<lambda>name. [\<lparr>key = ''Sentinel-2/MSI/L1C/2024/04/30/S2B_MSIL1C_20240430T153609_N0510_R110_T17QKA.SAFE/file1.jp2'',
                   body = Inr ''jp2 bytes''\<rparr>])
       [''/eodata/Sentinel-2/MSI/L1C/2024/04/30/S2B_MSIL1C_20240430T153609_N0510_R110_T17QKA.SAFE/file1.jp2'']
       0 ''out/'' \<lparr>disk = \<lparr>dirs = {}, files = Map.empty\<rparr>, stdout = []\<rparr>))
     ''out/S2B_MSIL1C_20240430T153609_N0510_R110_T17QKA/file1.jp2'' = Some ''jp2 bytes''"
proof -
  let ?ox = "\<lparr>key = ''a/S2A_MSIL1C_1T2_N3_R4_T5.SAFE/x.jp2'', body = Inr ''xx''\<rparr>"
  let ?oy = "\<lparr>key = ''a/S2A_MSIL1C_1T2_N3_R4_T5.SAFE/y.jp2'', body = Inr ''yy''\<rparr>"
  let ?fs0 = "\<lparr>dirs = {}, files = Map.empty\<rparr>"
  let ?s3 = "\<lambda>name :: string. [\<lparr>key = ''Sentinel-2/MSI/L1C/2024/04/30/S2B_MSIL1C_20240430T153609_N0510_R110_T17QKA.SAFE/file1.jp2'',
                   body = Inr ''jp2 bytes'' :: error + string\<rparr>]"
  note t = object_written_under_image_name [of "[?ox, ?oy]" "''a/''" "[?ox]" ?oy "[]" "''out''"
      ?fs0 "''S2A_MSIL1C_1T2_N3_R4_T5''" "''yy''" ?s3 "''jp2 bytes''"
      "\<lparr>disk = \<lparr>dirs = {}, files = Map.empty\<rparr>, stdout = []\<rparr>"]
  have l: "objects_filter [?ox, ?oy] ''a/'' = [?ox] @ ?oy # []"
    by (simp add: objects_filter_def)
  have ok: "fst (download_loop ''out'' [?ox] ?fs0) = Inr ()" by (simp only: loop_x fst_conv)
  have ey: "extract_imagename (key ?oy) = Inr ''S2A_MSIL1C_1T2_N3_R4_T5''"
    using extract_y by simp
  have bd: "body ?oy = Inr ''yy''" by simp
  from t l ok ey bd have "download_loop ''out'' ([?ox] @ [?oy]) ?fs0 =
        (Inr (),
         (snd (download_loop ''out'' [?ox] ?fs0))
           \<lparr>dirs := insert (os_path_join ''out'' ''S2A_MSIL1C_1T2_N3_R4_T5'')
                      (dirs (snd (download_loop ''out'' [?ox] ?fs0))),
            files := (files (snd (download_loop ''out'' [?ox] ?fs0)))
                       (os_path_join (os_path_join ''out'' ''S2A_MSIL1C_1T2_N3_R4_T5'')
                          (basename (key ?oy)) \<mapsto> ''yy'')\<rparr>)" by blast
  then have two: "download_loop ''out'' ([?ox] @ [?oy]) ?fs0 =
      (Inr (),
      \<lparr>dirs = {''out/S2A_MSIL1C_1T2_N3_R4_T5''},
       files = [''out/S2A_MSIL1C_1T2_N3_R4_T5/x.jp2'' \<mapsto> ''xx'',
                ''out/S2A_MSIL1C_1T2_N3_R4_T5/y.jp2'' \<mapsto> ''yy'']\<rparr>)"
    by (simp only: loop_x snd_conv)
       (simp add: os_path_join_def basename_def suffix_to_prefix)
  from t have ex: "files (disk (download_copernicus_images ?s3
       [''/eodata/Sentinel-2/MSI/L1C/2024/04/30/S2B_MSIL1C_20240430T153609_N0510_R110_T17QKA.SAFE/file1.jp2'']
       0 ''out/'' \<lparr>disk = \<lparr>dirs = {}, files = Map.empty\<rparr>, stdout = []\<rparr>))
     ''out/S2B_MSIL1C_20240430T153609_N0510_R110_T17QKA/file1.jp2'' = Some ''jp2 bytes''"
    by blast
  from l two ex show ?thesis by (intro conjI)
qed

text \<open>
  Claim C7 as stated fails for a listed object behind one that ends the loop: the key
  of the second object carries an image name, the key of the first does not, and
  \<open>download\<close> ends with \<open>ValueError\<close> without a directory or a file for the second.
\<close>

theorem object_after_failure_counterexample:
  "objects_filter
     [\<lparr>key = ''a/README.txt'', body = Inr ''rr''\<rparr>,
      \<lparr>key = ''a/S2A_MSIL1C_1T2_N3_R4_T5.SAFE/y.jp2'', body = Inr ''yy''\<rparr>] ''a/''
     = [\<lparr>key = ''a/README.txt'', body = Inr ''rr''\<rparr>,
        \<lparr>key = ''a/S2A_MSIL1C_1T2_N3_R4_T5.SAFE/y.jp2'', body = Inr ''yy''\<rparr>] \<and>
   extract_imagename ''a/S2A_MSIL1C_1T2_N3_R4_T5.SAFE/y.jp2'' = Inr ''S2A_MSIL1C_1T2_N3_R4_T5'' \<and>
   download
     [\<lparr>key = ''a/README.txt'', body = Inr ''rr''\<rparr>,
      \<lparr>key = ''a/S2A_MSIL1C_1T2_N3_R4_T5.SAFE/y.jp2'', body = Inr ''yy''\<rparr>] ''a/'' ''out''
     \<lparr>dirs = {}, files = Map.empty\<rparr>
   = (Inl ValueError, \<lparr>dirs = {}, files = Map.empty\<rparr>)"
proof -
  let ?on = "\<lparr>key = ''a/README.txt'', body = Inr ''rr''\<rparr>"
  let ?oy = "\<lparr>key = ''a/S2A_MSIL1C_1T2_N3_R4_T5.SAFE/y.jp2'', body = Inr ''yy''\<rparr>"
  have l: "objects_filter [?on, ?oy] ''a/'' = [?on, ?oy]"
    by (simp add: objects_filter_def)
  have "download_object ''out'' ?on \<lparr>dirs = {}, files = Map.empty\<rparr>
      = (Inl ValueError, \<lparr>dirs = {}, files = Map.empty\<rparr>)"
    using extract_readme by (simp add: download_object_def)
  then have "download [?on, ?oy] ''a/'' ''out'' \<lparr>dirs = {}, files = Map.empty\<rparr>
      = (Inl ValueError, \<lparr>dirs = {}, files = Map.empty\<rparr>)"
    using download_listing [OF l, of "''out''" "\<lparr>dirs = {}, files = Map.empty\<rparr>"] by simp
  with l extract_y show ?thesis by (intro conjI)
qed

subsection \<open>The rows that are processed\<close>

text \<open>
  Claim C8, as amended: for a start row that is not negative. The loop runs over the
  rows at the positions \<open>start_row\<close>, \<open>start_row + 1\<close>, ... up to the last one, in this
  order, each paired with its position in the whole table, and the lines of progress
  printed are those of these rows, each with the stripped path and that position. The
  rows before \<open>start_row\<close> are not in the list.
\<close>

theorem rows_from_start_row:
  "0 \<le> start_row \<Longrightarrow>
     py_enumerate start_row (py_slice_from df start_row)
       = map (\<lambda>i. (int i, df ! i)) [nat start_row..<length df] \<and>
     progress_of (stdout (download_copernicus_images s3 df start_row target w))
       = progress_of (stdout w) @
         map (\<lambda>i. (remove_prefix (df ! i) ''/eodata/'', int i)) [nat start_row..<length df]"
proof -
  assume a: "0 \<le> start_row"
  have e: "py_enumerate start_row (py_slice_from df start_row)
       = map (\<lambda>i. (int i, df ! i)) [nat start_row..<length df]"
    using a by (rule enumerate_slice_nonneg)
  have "progress_of (stdout (download_copernicus_images s3 df start_row target w))
       = progress_of (stdout w) @
         map (\<lambda>(idx, s3path). (remove_prefix s3path ''/eodata/'', idx))
           (map (\<lambda>i. (int i, df ! i)) [nat start_row..<length df])"
    unfolding download_copernicus_images_def rows_loop_progress e ..
  then have "progress_of (stdout (download_copernicus_images s3 df start_row target w))
       = progress_of (stdout w) @
         map (\<lambda>i. (remove_prefix (df ! i) ''/eodata/'', int i)) [nat start_row..<length df]"
    by (simp add: comp_def)
  with e show ?thesis by (intro conjI)
qed

theorem rows_from_start_row_witness:
  "progress_of (stdout (download_copernicus_images (\<lambda>name. [])
       [''/eodata/a/'', ''/eodata/b/'', ''c/''] 1 ''out''
       \<lparr>disk = \<lparr>dirs = {}, files = Map.empty\<rparr>, stdout = []\<rparr>))
     = [(''b/'', 1), (''c/'', 2)]"
proof -
  have h: "(0::int) \<le> 1" by simp
  have u: "[nat 1..<length [''/eodata/a/'', ''/eodata/b/'', ''c/'']] = [1, 2]"
    by (simp add: upt_rec)
  from rows_from_start_row [OF h, of "[''/eodata/a/'', ''/eodata/b/'', ''c/'']" "\<lambda>name. []" "''out''"
      "\<lparr>disk = \<lparr>dirs = {}, files = Map.empty\<rparr>, stdout = []\<rparr>"]
  have "progress_of (stdout (download_copernicus_images (\<lambda>name. [])
       [''/eodata/a/'', ''/eodata/b/'', ''c/''] 1 ''out''
       \<lparr>disk = \<lparr>dirs = {}, files = Map.empty\<rparr>, stdout = []\<rparr>))
     = progress_of (stdout \<lparr>disk = \<lparr>dirs = {}, files = Map.empty\<rparr>, stdout = []\<rparr>) @
         map (\<lambda>i. (remove_prefix ([''/eodata/a/'', ''/eodata/b/'', ''c/''] ! i) ''/eodata/'', int i))
           [nat 1..<length [''/eodata/a/'', ''/eodata/b/'', ''c/'']]" by (rule conjunct2)
  then show ?thesis unfolding u by (simp add: remove_prefix_def)
qed

text \<open>
  Claim C8 as stated fails for a negative start row: the slice counts it from the end and
  clips it at the first row, and \<^verbatim>\<open>enumerate\<close> numbers from it as it is. With one row
  and the start row \<open>-2\<close> the row at position \<open>0\<close> is processed and reported as row
  \<open>-2\<close>.
\<close>

theorem negative_start_row_counterexample:
  "progress_of (stdout (download_copernicus_images (\<lambda>name. [])
       [''/eodata/a/''] (- 2) ''out''
       \<lparr>disk = \<lparr>dirs = {}, files = Map.empty\<rparr>, stdout = []\<rparr>))
     = [(''a/'', - 2)] \<and>
   [''/eodata/a/''] ! 0 = ''/eodata/a/'' \<and> length [''/eodata/a/''] = 1"
  by (simp add: download_copernicus_images_def py_slice_from_def download_def objects_filter_def
      remove_prefix_def print_line_def Let_def)

subsection \<open>A row whose download raises\<close>

lemma row_a:
  "rows_loop
     [\<lparr>key = ''a/S2A_MSIL1C_1T2_N3_R4_T5.SAFE/x.jp2'', body = Inr ''xx''\<rparr>,
      \<lparr>key = ''c/S2B_MSIL2A_6T7_N8_R9_T0.SAFE/z.jp2'', body = Inr ''zz''\<rparr>]
     ''out'' [(0, ''/eodata/a/'')] \<lparr>disk = \<lparr>dirs = {}, files = Map.empty\<rparr>, stdout = []\<rparr>
   = \<lparr>disk = \<lparr>dirs = {''out/S2A_MSIL1C_1T2_N3_R4_T5''},
               files = [''out/S2A_MSIL1C_1T2_N3_R4_T5/x.jp2'' \<mapsto> ''xx'']\<rparr>,
       stdout = [Progress ''a/'' 0]\<rparr>"
proof -
  let ?ox = "\<lparr>key = ''a/S2A_MSIL1C_1T2_N3_R4_T5.SAFE/x.jp2'', body = Inr ''xx''\<rparr>"
  let ?oc = "\<lparr>key = ''c/S2B_MSIL2A_6T7_N8_R9_T0.SAFE/z.jp2'', body = Inr ''zz''\<rparr>"
  let ?w0 = "\<lparr>disk = \<lparr>dirs = {}, files = Map.empty\<rparr>, stdout = []\<rparr>"
  have l: "objects_filter [?ox, ?oc] ''a/'' = [?ox]" by (simp add: objects_filter_def)
  have d: "download [?ox, ?oc] (remove_prefix ''/eodata/a/'' ''/eodata/'') ''out'' (disk ?w0)
      = (Inr (), \<lparr>dirs = {''out/S2A_MSIL1C_1T2_N3_R4_T5''},
               files = [''out/S2A_MSIL1C_1T2_N3_R4_T5/x.jp2'' \<mapsto> ''xx'']\<rparr>)"
    using download_listing [OF l, of "''out''" "\<lparr>dirs = {}, files = Map.empty\<rparr>"] loop_x
    by (simp add: remove_prefix_def)
  show ?thesis unfolding rows_loop_return [OF d] by (simp add: remove_prefix_def)
qed

text \<open>
  Claim C4. Take any row \<open>(idx, s3path)\<close> of the slice the loop runs over, with the
  rows \<open>pre\<close> before it and \<open>post\<close> behind it, and let its download raise \<open>e\<close>. The
  exception is caught: the run prints the line of progress and the line of failure, which
  carries the stripped path and the text of the error, keeps the file system the failed
  download left, and goes on to process every row of \<open>post\<close>. Every row of the slice has
  its line of progress in the output, so each was begun, whichever of them failed. The
  example that follows is a table of three rows whose second row raises: the files of the
  first and of the third row are written.
\<close>

theorem failed_row_is_logged_and_skipped:
  assumes "py_enumerate start_row (py_slice_from df start_row) = pre @ (idx, s3path) # post"
    and "download (s3 ''eodata'') (remove_prefix s3path ''/eodata/'') target
           (disk (rows_loop (s3 ''eodata'') target pre w)) = (Inl e, fs')"
  shows "download_copernicus_images s3 df start_row target w
       = rows_loop (s3 ''eodata'') target post
           ((rows_loop (s3 ''eodata'') target pre w)
              \<lparr>disk := fs',
               stdout := stdout (rows_loop (s3 ''eodata'') target pre w) @
                 [Progress (remove_prefix s3path ''/eodata/'') idx,
                  Failure (remove_prefix s3path ''/eodata/'') e]\<rparr>) \<and>
     progress_of (stdout (download_copernicus_images s3 df start_row target w))
       = progress_of (stdout w) @
         map (\<lambda>(i, p). (remove_prefix p ''/eodata/'', i)) (pre @ (idx, s3path) # post) \<and>
     render (Failure (remove_prefix s3path ''/eodata/'') e)
       = ''Error al descargar '' @ remove_prefix s3path ''/eodata/'' @ '': '' @ error_str e"
proof -
  have "download_copernicus_images s3 df start_row target w
      = rows_loop (s3 ''eodata'') target ((idx, s3path) # post)
          (rows_loop (s3 ''eodata'') target pre w)"
    by (simp only: download_copernicus_images_def assms(1) rows_loop_append)
  then have one: "download_copernicus_images s3 df start_row target w
       = rows_loop (s3 ''eodata'') target post
           ((rows_loop (s3 ''eodata'') target pre w)
              \<lparr>disk := fs',
               stdout := stdout (rows_loop (s3 ''eodata'') target pre w) @
                 [Progress (remove_prefix s3path ''/eodata/'') idx,
                  Failure (remove_prefix s3path ''/eodata/'') e]\<rparr>)"
    by (simp only: rows_loop_raise [OF assms(2)])
  have two: "progress_of (stdout (download_copernicus_images s3 df start_row target w))
       = progress_of (stdout w) @
         map (\<lambda>(i, p). (remove_prefix p ''/eodata/'', i)) (pre @ (idx, s3path) # post)"
    by (simp only: download_copernicus_images_def assms(1) rows_loop_progress)
  have three: "render (Failure (remove_prefix s3path ''/eodata/'') e)
       = ''Error al descargar '' @ remove_prefix s3path ''/eodata/'' @ '': '' @ error_str e"
    by simp
  from one two three show ?thesis by (intro conjI)
qed

theorem failed_row_is_logged_and_skipped_witness:
  "download_copernicus_images
     (\<lambda>name. [\<lparr>key = ''a/S2A_MSIL1C_1T2_N3_R4_T5.SAFE/x.jp2'', body = Inr ''xx''\<rparr>,
               \<lparr>key = ''c/S2B_MSIL2A_6T7_N8_R9_T0.SAFE/z.jp2'', body = Inr ''zz''\<rparr>])
     [''/eodata/a/'', ''/eodata/b/'', ''/eodata/c/''] 0 ''out''
     \<lparr>disk = \<lparr>dirs = {}, files = Map.empty\<rparr>, stdout = []\<rparr>
   = \<lparr>disk = \<lparr>dirs = {''out/S2B_MSIL2A_6T7_N8_R9_T0'', ''out/S2A_MSIL1C_1T2_N3_R4_T5''},
              files = [''out/S2A_MSIL1C_1T2_N3_R4_T5/x.jp2'' \<mapsto> ''xx'',
                       ''out/S2B_MSIL2A_6T7_N8_R9_T0/z.jp2'' \<mapsto> ''zz'']\<rparr>,
      stdout = [Progress ''a/'' 0, Progress ''b/'' 1, Failure ''b/'' (FileNotFoundError ''b/''),
                Progress ''c/'' 2]\<rparr>"
proof -
  let ?ox = "\<lparr>key = ''a/S2A_MSIL1C_1T2_N3_R4_T5.SAFE/x.jp2'', body = Inr ''xx''\<rparr>"
  let ?oc = "\<lparr>key = ''c/S2B_MSIL2A_6T7_N8_R9_T0.SAFE/z.jp2'', body = Inr ''zz''\<rparr>"
  let ?s3 = "\<lambda>name :: string. [?ox, ?oc]"
  let ?df = "[''/eodata/a/'', ''/eodata/b/'', ''/eodata/c/'']"
  let ?w0 = "\<lparr>disk = \<lparr>dirs = {}, files = Map.empty\<rparr>, stdout = []\<rparr>"
  let ?fsx = "\<lparr>dirs = {''out/S2A_MSIL1C_1T2_N3_R4_T5''},
               files = [''out/S2A_MSIL1C_1T2_N3_R4_T5/x.jp2'' \<mapsto> ''xx'']\<rparr>"
  let ?w2 = "\<lparr>disk = ?fsx,
      stdout = [Progress ''a/'' 0, Progress ''b/'' 1, Failure ''b/'' (FileNotFoundError ''b/'')]\<rparr>"
  have en: "py_enumerate 0 (py_slice_from ?df 0)
      = [(0, ''/eodata/a/'')] @ (1, ''/eodata/b/'') # [(2, ''/eodata/c/'')]"
    by (simp add: py_slice_from_def)
  have rb: "remove_prefix ''/eodata/b/'' ''/eodata/'' = ''b/''" by (simp add: remove_prefix_def)
  have db: "download (?s3 ''eodata'') (remove_prefix ''/eodata/b/'' ''/eodata/'') ''out''
      (disk (rows_loop (?s3 ''eodata'') ''out'' [(0, ''/eodata/a/'')] ?w0))
      = (Inl (FileNotFoundError ''b/''), ?fsx)"
    unfolding row_a rb by (simp add: download_def objects_filter_def)
  from failed_row_is_logged_and_skipped [OF en db]
  have "download_copernicus_images ?s3 ?df 0 ''out'' ?w0
      = rows_loop (?s3 ''eodata'') ''out'' [(2, ''/eodata/c/'')]
          ((rows_loop (?s3 ''eodata'') ''out'' [(0, ''/eodata/a/'')] ?w0)
              \<lparr>disk := ?fsx,
               stdout := stdout (rows_loop (?s3 ''eodata'') ''out'' [(0, ''/eodata/a/'')] ?w0) @
                 [Progress (remove_prefix ''/eodata/b/'' ''/eodata/'') 1,
                  Failure (remove_prefix ''/eodata/b/'' ''/eodata/'') (FileNotFoundError ''b/'')]\<rparr>)"
    by (rule conjunct1)
  then have step: "download_copernicus_images ?s3 ?df 0 ''out'' ?w0
      = rows_loop [?ox, ?oc] ''out'' [(2, ''/eodata/c/'')] ?w2"
    unfolding row_a rb by simp
  have lc: "objects_filter [?ox, ?oc] ''c/'' = [?oc]" by (simp add: objects_filter_def)
  have dc: "download [?ox, ?oc] (remove_prefix ''/eodata/c/'' ''/eodata/'') ''out'' (disk ?w2)
      = (Inr (), ?fsx\<lparr>dirs := insert ''out/S2B_MSIL2A_6T7_N8_R9_T0'' (dirs ?fsx),
                 files := (files ?fsx)(''out/S2B_MSIL2A_6T7_N8_R9_T0/z.jp2'' \<mapsto> ''zz'')\<rparr>)"
    using download_listing [OF lc, of "''out''" ?fsx] loop_c [of ?fsx]
    by (simp add: remove_prefix_def)
  have "rows_loop [?ox, ?oc] ''out'' [(2, ''/eodata/c/'')] ?w2
      = \<lparr>disk = \<lparr>dirs = {''out/S2B_MSIL2A_6T7_N8_R9_T0'', ''out/S2A_MSIL1C_1T2_N3_R4_T5''},
              files = [''out/S2A_MSIL1C_1T2_N3_R4_T5/x.jp2'' \<mapsto> ''xx'',
                       ''out/S2B_MSIL2A_6T7_N8_R9_T0/z.jp2'' \<mapsto> ''zz'']\<rparr>,
      stdout = [Progress ''a/'' 0, Progress ''b/'' 1, Failure ''b/'' (FileNotFoundError ''b/''),
                Progress ''c/'' 2]\<rparr>"
    unfolding rows_loop_return [OF dc] by (simp add: remove_prefix_def)
  with step show ?thesis by (simp only:)
qed

end
